theory Spec2Isabelle
  imports Main "HOL-Library.Word"
begin

unbundle bit_operations_syntax

section \<open>Data model of \<open>mmg-device.cpp\<close>\<close>

text \<open>
  The file \<open>src/mmg-device.cpp\<close> defines the methods of \<open>MMGDevice\<close> (one named MIDI
  endpoint) and of \<open>MMGDeviceManager\<close> (the registry of devices). The headers it includes
  (\<open>mmg-device.h\<close>, \<open>mmg-config.h\<close>, \<open>mmg-binding.h\<close>, \<open>mmg-message.h\<close>) are not part of the
  sources; what the methods need from them is either a parameter of the model or a
  definition marked \<open>Modelled from the spec\<close>.
\<close>

text \<open>
  Modelled from the spec: the enumeration \<open>DeviceType\<close> is declared in a header that is
  missing. The code switches on \<open>TYPE_INPUT\<close> and \<open>TYPE_OUTPUT\<close> and has a \<open>default\<close> branch;
  the spec names the remaining query mode "Either". \<open>TYPE_EITHER\<close> stands for every
  enumerator that reaches a \<open>default\<close> branch.
\<close>

datatype DeviceType = TYPE_INPUT | TYPE_OUTPUT | TYPE_EITHER

type_synonym uint = "32 word"

text \<open>
  The transport collaborator (\<open>MMGMIDIPort::openPort\<close>, \<open>closePort\<close>, \<open>isPortOpen\<close>) is outside
  the sources. It is a parameter: an arbitrary state \<open>'t\<close> of the underlying ports and three
  operations on it. Nothing is assumed about whether an open attempt succeeds.
\<close>

record 't Transport =
  tr_open :: "DeviceType \<Rightarrow> 't \<Rightarrow> 't"
  tr_close :: "DeviceType \<Rightarrow> 't \<Rightarrow> 't"
  tr_is_open :: "DeviceType \<Rightarrow> 't \<Rightarrow> bool"

datatype port_call = OpenPort DeviceType | ClosePort DeviceType

text \<open>
  An \<open>MMGDevice\<close> object. \<open>active\<close> is the member \<open>_active\<close>, \<open>thru\<close> the member \<open>_thru\<close>.
  \<open>port\<close> is the state of the device's ports in the transport, and \<open>calls\<close> is a history of
  the transport operations invoked on this device, oldest first (a ghost field: the code
  keeps no such list, the model records each \<open>openPort\<close> and \<open>closePort\<close> call in it).

  Modelled from the spec: \<open>capable\<close> is the capability mask behind \<open>isCapable\<close> and
  \<open>setCapable\<close> of the base class \<open>MMGMIDIPort\<close> (spec: "capableMask: 2-bit state, bit0 =
  Input capable, bit1 = Output capable").
\<close>

record 't MMGDevice =
  objectName :: string
  editable :: bool
  active :: uint
  capable :: uint
  thru :: string
  port :: 't
  calls :: "port_call list"

text \<open>
  The reference graph: a message holds a device name and a possibly null back-reference
  to a device object (an address in the heap of devices, \<open>None\<close> for \<open>nullptr\<close>); a binding
  is an ordered sequence of messages; a collection an ordered sequence of bindings.

  Modelled from the spec: \<open>MMGBinding::refresh\<close> is defined in \<open>mmg-binding.cpp\<close>, which is
  missing (spec: "supports a refresh operation recomputing its derived/cached state").
  The model counts the invocations in the ghost field \<open>refreshes\<close> and changes nothing
  else.
\<close>

record MMGMessage =
  deviceName :: string
  device :: "nat option"

record MMGBinding =
  messages :: "MMGMessage list"
  refreshes :: nat

type_synonym MMGBindingManager = "MMGBinding list"

datatype event =
    Removed nat
  | Registered nat
  | Repointed MMGMessage nat
  | Refreshed MMGBinding

text \<open>
  The process-wide state a device method reaches: \<open>config\<close> is what the function \<open>config()\<close>
  returns (\<open>None\<close> for a null \<open>MMGConfig\<close>, otherwise its collections); \<open>prompts\<close> are the
  arguments of the calls of \<open>MMGInterface::promptUser\<close>, oldest first; \<open>events\<close> is a ghost
  history of registry and cascade steps, oldest first.
\<close>

record globals =
  config :: "MMGBindingManager list option"
  prompts :: "string list"
  events :: "event list"

section \<open>MMGDevice\<close>

definition openPort :: "'t Transport \<Rightarrow> DeviceType \<Rightarrow> 't MMGDevice \<Rightarrow> 't MMGDevice" where
  "openPort tr ty d = d\<lparr>port := tr_open tr ty (port d), calls := calls d @ [OpenPort ty]\<rparr>"

definition closePort :: "'t Transport \<Rightarrow> DeviceType \<Rightarrow> 't MMGDevice \<Rightarrow> 't MMGDevice" where
  "closePort tr ty d = d\<lparr>port := tr_close tr ty (port d), calls := calls d @ [ClosePort ty]\<rparr>"

definition isPortOpen :: "'t Transport \<Rightarrow> DeviceType \<Rightarrow> 't MMGDevice \<Rightarrow> bool" where
  "isPortOpen tr ty d = tr_is_open tr ty (port d)"

text \<open>
  Modelled from the spec: \<open>isCapable\<close> and \<open>setCapable\<close> of \<open>MMGMIDIPort\<close> (bit 0 is Input,
  bit 1 is Output). The spec does not say what they do for another \<open>DeviceType\<close>; the
  query is modelled like \<open>isActive\<close>, the setter leaves the mask alone.
\<close>

definition isCapable :: "DeviceType \<Rightarrow> 't MMGDevice \<Rightarrow> bool" where
  "isCapable ty d =
     (case ty of
        TYPE_INPUT \<Rightarrow> capable d AND 1 \<noteq> 0
      | TYPE_OUTPUT \<Rightarrow> capable d AND 2 \<noteq> 0
      | TYPE_EITHER \<Rightarrow> capable d > 0)"

definition setCapable :: "DeviceType \<Rightarrow> bool \<Rightarrow> 't MMGDevice \<Rightarrow> 't MMGDevice" where
  "setCapable ty c d =
     (case ty of
        TYPE_INPUT \<Rightarrow> d\<lparr>capable := (if c then capable d OR 1 else capable d AND NOT 1)\<rparr>
      | TYPE_OUTPUT \<Rightarrow> d\<lparr>capable := (if c then capable d OR 2 else capable d AND NOT 2)\<rparr>
      | TYPE_EITHER \<Rightarrow> d)"

text \<open>\<open>MMGDevice::isActive\<close>, lines 60-72.\<close>

definition isActive :: "DeviceType \<Rightarrow> 't MMGDevice \<Rightarrow> bool" where
  "isActive ty d =
     (case ty of
        TYPE_INPUT \<Rightarrow> active d AND 1 \<noteq> 0
      | TYPE_OUTPUT \<Rightarrow> active d AND 2 \<noteq> 0
      | TYPE_EITHER \<Rightarrow> active d > 0)"

definition promptUser :: "string \<Rightarrow> globals \<Rightarrow> globals" where
  "promptUser msg g = g\<lparr>prompts := prompts g @ [msg]\<rparr>"

definition refresh :: "MMGBinding \<Rightarrow> MMGBinding" where
  "refresh b = b\<lparr>refreshes := Suc (refreshes b)\<rparr>"

text \<open>
  The two nested range-for loops over the collections and their bindings, shared by
  \<open>setActive\<close> (lines 105-122) and \<open>refreshBindingsForDevice\<close> (lines 212-230): each binding
  for which \<open>needsRefresh\<close> holds is refreshed, in order.
\<close>

fun refresh_bindings ::
  "(MMGBinding \<Rightarrow> bool) \<Rightarrow> MMGBinding list \<Rightarrow> event list \<Rightarrow> MMGBinding list \<times> event list" where
  "refresh_bindings needs [] ev = ([], ev)"
| "refresh_bindings needs (b # bs) ev =
     (if needs b
      then (case refresh_bindings needs bs (ev @ [Refreshed b]) of
              (bs', ev') \<Rightarrow> (refresh b # bs', ev'))
      else (case refresh_bindings needs bs ev of
              (bs', ev') \<Rightarrow> (b # bs', ev')))"

fun refresh_collections ::
  "(MMGBinding \<Rightarrow> bool) \<Rightarrow> MMGBindingManager list \<Rightarrow> event list
     \<Rightarrow> MMGBindingManager list \<times> event list" where
  "refresh_collections needs [] ev = ([], ev)"
| "refresh_collections needs (c # cs) ev =
     (case refresh_bindings needs c ev of
        (c', ev') \<Rightarrow>
          (case refresh_collections needs cs ev' of
             (cs', ev'') \<Rightarrow> (c' # cs', ev'')))"

text \<open>
  \<open>binding->messages(0)\<close>: the element accessor of the message list, null when the index is
  out of range.
\<close>

definition messages_at :: "MMGBinding \<Rightarrow> nat \<Rightarrow> MMGMessage option" where
  "messages_at b i = (if i < length (messages b) then Some (messages b ! i) else None)"

text \<open>The test of lines 108-116: only the first message of the binding is looked at.\<close>

definition first_message_uses :: "string \<Rightarrow> MMGBinding \<Rightarrow> bool" where
  "first_message_uses name b =
     (if length (messages b) > 0
      then (case messages_at b 0 of
              None \<Rightarrow> False
            | Some message \<Rightarrow> deviceName message = name)
      else False)"

text \<open>Lines 100-124 of \<open>setActive\<close>: the cascade run when a direction is activated.\<close>

definition activation_cascade :: "string \<Rightarrow> globals \<Rightarrow> globals" where
  "activation_cascade name g =
     (case config g of
        None \<Rightarrow> g
      | Some collections \<Rightarrow>
          (case refresh_collections (first_message_uses name) collections (events g) of
             (collections', ev') \<Rightarrow> g\<lparr>config := Some collections', events := ev'\<rparr>))"

text \<open>\<open>MMGDevice::setActive\<close>, lines 74-125.\<close>

definition setActive ::
  "'t Transport \<Rightarrow> DeviceType \<Rightarrow> bool \<Rightarrow> 't MMGDevice \<times> globals \<Rightarrow> 't MMGDevice \<times> globals" where
  "setActive tr ty want s =
     (case s of (d, g) \<Rightarrow>
        if \<not> editable d \<or> isActive ty d = want \<or> \<not> isCapable ty d then (d, g)
        else
          let d1 = (if \<not> isActive ty d then openPort tr ty d else closePort tr ty d) in
          if isPortOpen tr ty d1 = isActive ty d1 then (d1, promptUser ''PortOpenError'' g)
          else
            let d2 = (case ty of
                        TYPE_INPUT \<Rightarrow> d1\<lparr>active := active d1 XOR 1\<rparr>
                      | TYPE_OUTPUT \<Rightarrow> d1\<lparr>active := active d1 XOR 2\<rparr>
                      | TYPE_EITHER \<Rightarrow> d1)
            in if want then (d2, activation_cascade (objectName d2) g) else (d2, g))"

text \<open>
  \<open>MMGDevice::checkCapable\<close>, lines 127-150. The two \<open>blog\<close> calls only write to the log
  of the host application and are left out. The last two statements convert
  \<open>active & 0b01\<close> and \<open>active & 0b10\<close> to \<open>bool\<close>: true when the masked value is not zero.
\<close>

definition checkCapable :: "'t Transport \<Rightarrow> 't MMGDevice \<times> globals \<Rightarrow> 't MMGDevice \<times> globals" where
  "checkCapable tr s =
     (case s of (d, g) \<Rightarrow>
        let act = active d;
            d0 = d\<lparr>active := 0\<rparr>;
            d1 = closePort tr TYPE_INPUT d0;
            d2 = closePort tr TYPE_OUTPUT d1;
            d3 = openPort tr TYPE_INPUT d2;
            d4 = setCapable TYPE_INPUT (isPortOpen tr TYPE_INPUT d3) d3;
            d5 = openPort tr TYPE_OUTPUT d4;
            d6 = setCapable TYPE_OUTPUT (isPortOpen tr TYPE_OUTPUT d5) d5;
            d7 = closePort tr TYPE_INPUT d6;
            d8 = closePort tr TYPE_OUTPUT d7;
            s9 = setActive tr TYPE_INPUT (act AND 1 \<noteq> 0) (d8, g)
        in setActive tr TYPE_OUTPUT (act AND 2 \<noteq> 0) s9)"

text \<open>
  Replaying a history of transport calls on a port state: used to speak about the state
  of the ports between two calls of a method.
\<close>

fun run_call :: "'t Transport \<Rightarrow> 't \<Rightarrow> port_call \<Rightarrow> 't" where
  "run_call tr p (OpenPort ty) = tr_open tr ty p"
| "run_call tr p (ClosePort ty) = tr_close tr ty p"

definition run_calls :: "'t Transport \<Rightarrow> port_call list \<Rightarrow> 't \<Rightarrow> 't" where
  "run_calls tr cs p = foldl (run_call tr) p cs"

text \<open>
  The config record. A \<open>QJsonObject\<close> maps keys to values; the code reads and writes the
  keys \<open>name\<close>, \<open>active\<close> and \<open>thru\<close> only, so the object is a record of three optional
  values. \<open>toString\<close> and \<open>toInt\<close> are the accessors of Qt's \<open>QJsonValue\<close>: a missing value
  reads as the empty string and as 0; a number that is not a C \<open>int\<close> reads as 0.
\<close>

record QJsonObject =
  j_name :: "string option"
  j_active :: "int option"
  j_thru :: "string option"

definition toString :: "string option \<Rightarrow> string" where
  "toString v = (case v of None \<Rightarrow> [] | Some s \<Rightarrow> s)"

definition toInt :: "int option \<Rightarrow> int" where
  "toInt v = (case v of None \<Rightarrow> 0 | Some i \<Rightarrow> if - (2 ^ 31) \<le> i \<and> i < 2 ^ 31 then i else 0)"

definition empty_json :: QJsonObject where
  "empty_json = \<lparr>j_name = None, j_active = None, j_thru = None\<rparr>"

text \<open>\<open>MMGDevice::json\<close>, lines 32-37: writes into the object passed by reference.\<close>

definition json :: "'t MMGDevice \<Rightarrow> QJsonObject \<Rightarrow> QJsonObject" where
  "json d device_obj =
     (let o1 = device_obj\<lparr>j_name := Some (objectName d)\<rparr>;
          o2 = o1\<lparr>j_active := Some (sint (active d))\<rparr>
      in if thru d \<noteq> [] then o2\<lparr>j_thru := Some (thru d)\<rparr> else o2)"

text \<open>\<open>MMGDevice::update\<close>, lines 39-58. The \<open>int\<close> read from the record is converted to \<open>uint\<close>.\<close>

definition update ::
  "'t Transport \<Rightarrow> QJsonObject \<Rightarrow> 't MMGDevice \<times> globals \<Rightarrow> 't MMGDevice \<times> globals" where
  "update tr json_obj s =
     (let activeState = (word_of_int (toInt (j_active json_obj)) :: uint);
          s1 = (if activeState AND 1 \<noteq> 0
                then setActive tr TYPE_INPUT True s
                else setActive tr TYPE_INPUT False s);
          s2 = (if activeState AND 2 \<noteq> 0
                then setActive tr TYPE_OUTPUT True s1
                else setActive tr TYPE_OUTPUT False s1)
      in (case s2 of (d, g) \<Rightarrow> (d\<lparr>thru := toString (j_thru json_obj)\<rparr>, g)))"

section \<open>MMGDeviceManager\<close>

text \<open>
  Device objects live in a heap, a list indexed by address; \<open>devices\<close> is the manager's
  list \<open>_list\<close> of device pointers. An address outside the heap is a pointer to no object.
\<close>

record 't world =
  heap :: "'t MMGDevice list"
  devices :: "nat list"
  glob :: globals

definition deref :: "'t MMGDevice list \<Rightarrow> nat \<Rightarrow> 't MMGDevice option" where
  "deref h a = (if a < length h then Some (h ! a) else None)"

text \<open>
  Modelled from the spec: \<open>MMGManager::find\<close>, \<open>MMGManager::remove\<close> and \<open>MMGManager::add\<close> are
  members of the base class template, which is missing. Spec: "find(name): exact-name
  lookup; returns no-match sentinel if absent"; "remove(device): deletes a Device entry;
  does not itself repoint references"; "Construct a new Device, register it under name".
  The model of \<open>remove\<close> takes the entry out of the list and keeps the object readable in
  the heap, so that a message still pointing at it can be followed.
\<close>

fun find_in :: "'t MMGDevice list \<Rightarrow> nat list \<Rightarrow> string \<Rightarrow> nat option" where
  "find_in h [] name = None"
| "find_in h (a # as) name =
     (case deref h a of
        None \<Rightarrow> find_in h as name
      | Some d \<Rightarrow> if objectName d = name then Some a else find_in h as name)"

definition find_device :: "'t world \<Rightarrow> string \<Rightarrow> nat option" where
  "find_device w name = find_in (heap w) (devices w) name"

definition log_event :: "event \<Rightarrow> globals \<Rightarrow> globals" where
  "log_event e g = g\<lparr>events := events g @ [e]\<rparr>"

definition remove_device :: "nat \<Rightarrow> 't world \<Rightarrow> 't world" where
  "remove_device a w = w\<lparr>devices := remove1 a (devices w), glob := log_event (Removed a) (glob w)\<rparr>"

definition manager_add :: "nat \<Rightarrow> 't world \<Rightarrow> 't world" where
  "manager_add a w = w\<lparr>devices := devices w @ [a], glob := log_event (Registered a) (glob w)\<rparr>"

text \<open>
  Modelled from the spec: the constructor of the base class \<open>MMGMIDIPort\<close> is missing. What
  it leaves behind (whether the device is editable, its capability mask, the state of its
  ports) is the parameter \<open>fresh\<close>; the name is the record's name (spec: "Construct a new
  Device, register it under name"), \<open>_active\<close> is zero and \<open>_thru\<close> empty.
\<close>

record 't fresh =
  fresh_editable :: bool
  fresh_capable :: uint
  fresh_port :: 't

definition base_device :: "'t fresh \<Rightarrow> QJsonObject \<Rightarrow> 't MMGDevice" where
  "base_device fr json_obj =
     \<lparr>objectName = toString (j_name json_obj), editable = fresh_editable fr, active = 0,
      capable = fresh_capable fr, thru = [], port = fresh_port fr, calls = []\<rparr>"

text \<open>The constructor \<open>MMGDevice::MMGDevice\<close>, lines 27-30: the base constructor, then \<open>update\<close>.\<close>

definition new_MMGDevice ::
  "'t Transport \<Rightarrow> 't fresh \<Rightarrow> QJsonObject \<Rightarrow> globals \<Rightarrow> 't MMGDevice \<times> globals" where
  "new_MMGDevice tr fr json_obj g = update tr json_obj (base_device fr json_obj, g)"

text \<open>
  The test of line 197. A back-reference outside the heap, which no operation of the
  model creates, is read as naming no device.
\<close>

definition stale_or_named :: "'t MMGDevice list \<Rightarrow> string \<Rightarrow> MMGMessage \<Rightarrow> bool" where
  "stale_or_named h name message =
     (case device message of
        None \<Rightarrow> True
      | Some a \<Rightarrow> (case deref h a of None \<Rightarrow> False | Some d \<Rightarrow> objectName d = name))"

text \<open>The three nested loops of \<open>updateDeviceReferences\<close>, lines 190-202.\<close>

fun repoint_messages ::
  "(MMGMessage \<Rightarrow> bool) \<Rightarrow> nat \<Rightarrow> MMGMessage list \<Rightarrow> event list \<Rightarrow> MMGMessage list \<times> event list" where
  "repoint_messages hit newDevice [] ev = ([], ev)"
| "repoint_messages hit newDevice (m # ms) ev =
     (if hit m
      then (case repoint_messages hit newDevice ms (ev @ [Repointed m newDevice]) of
              (ms', ev') \<Rightarrow> (m\<lparr>device := Some newDevice\<rparr> # ms', ev'))
      else (case repoint_messages hit newDevice ms ev of
              (ms', ev') \<Rightarrow> (m # ms', ev')))"

fun repoint_bindings ::
  "(MMGMessage \<Rightarrow> bool) \<Rightarrow> nat \<Rightarrow> MMGBinding list \<Rightarrow> event list \<Rightarrow> MMGBinding list \<times> event list" where
  "repoint_bindings hit newDevice [] ev = ([], ev)"
| "repoint_bindings hit newDevice (b # bs) ev =
     (case repoint_messages hit newDevice (messages b) ev of
        (ms', ev') \<Rightarrow>
          (case repoint_bindings hit newDevice bs ev' of
             (bs', ev'') \<Rightarrow> (b\<lparr>messages := ms'\<rparr> # bs', ev'')))"

fun repoint_collections ::
  "(MMGMessage \<Rightarrow> bool) \<Rightarrow> nat \<Rightarrow> MMGBindingManager list \<Rightarrow> event list
     \<Rightarrow> MMGBindingManager list \<times> event list" where
  "repoint_collections hit newDevice [] ev = ([], ev)"
| "repoint_collections hit newDevice (c # cs) ev =
     (case repoint_bindings hit newDevice c ev of
        (c', ev') \<Rightarrow>
          (case repoint_collections hit newDevice cs ev' of
             (cs', ev'') \<Rightarrow> (c' # cs', ev'')))"

text \<open>\<open>MMGDeviceManager::updateDeviceReferences\<close>, lines 183-203.\<close>

definition updateDeviceReferences :: "string \<Rightarrow> nat \<Rightarrow> 't world \<Rightarrow> 't world" where
  "updateDeviceReferences name newDevice w =
     (case config (glob w) of
        None \<Rightarrow> w
      | Some collections \<Rightarrow>
          (case repoint_collections (stale_or_named (heap w) name) newDevice collections
                  (events (glob w)) of
             (collections', ev') \<Rightarrow>
               w\<lparr>glob := (glob w)\<lparr>config := Some collections', events := ev'\<rparr>\<rparr>))"

text \<open>The inner loop of lines 219-224: stops at the first message that names the device.\<close>

fun any_message_uses :: "string \<Rightarrow> MMGMessage list \<Rightarrow> bool" where
  "any_message_uses name [] = False"
| "any_message_uses name (m # ms) =
     (if deviceName m = name then True else any_message_uses name ms)"

text \<open>\<open>MMGDeviceManager::refreshBindingsForDevice\<close>, lines 205-231.\<close>

definition refreshBindingsForDevice :: "string \<Rightarrow> globals \<Rightarrow> globals" where
  "refreshBindingsForDevice name g =
     (case config g of
        None \<Rightarrow> g
      | Some collections \<Rightarrow>
          (case refresh_collections (\<lambda>b. any_message_uses name (messages b)) collections
                  (events g) of
             (collections', ev') \<Rightarrow> g\<lparr>config := Some collections', events := ev'\<rparr>))"

text \<open>
  \<open>MMGDeviceManager::add(const QJsonObject &)\<close>, lines 154-181. \<open>dummy\<close> is the string
  \<open>mmgtr("Device.Dummy")\<close>, a translation looked up at run time. The result is the address
  of the device returned and the new state.
\<close>

definition add_json ::
  "'t Transport \<Rightarrow> 't fresh \<Rightarrow> string \<Rightarrow> QJsonObject \<Rightarrow> 't world \<Rightarrow> nat \<times> 't world" where
  "add_json tr fr dummy json_obj w =
     (let name = toString (j_name json_obj) in
      case find_device w name of
        Some current_device \<Rightarrow>
          (case update tr json_obj (heap w ! current_device, glob w) of
             (d', g') \<Rightarrow>
               (current_device,
                w\<lparr>heap := (heap w)[current_device := d'],
                  glob := refreshBindingsForDevice name g'\<rparr>))
      | None \<Rightarrow>
          let w0 = (case find_device w dummy of
                      None \<Rightarrow> w
                    | Some a \<Rightarrow> remove_device a w)
          in (case new_MMGDevice tr fr json_obj (glob w0) of
                (d, g1) \<Rightarrow>
                  let newDevice = length (heap w0);
                      w1 = w0\<lparr>heap := heap w0 @ [d], glob := g1\<rparr>;
                      w2 = manager_add newDevice w1;
                      w3 = updateDeviceReferences name newDevice w2;
                      w4 = w3\<lparr>glob := refreshBindingsForDevice name (glob w3)\<rparr>
                  in (newDevice, w4)))"

text \<open>\<open>MMGDeviceManager::add(const QString &)\<close>, lines 233-238.\<close>

definition add_name ::
  "'t Transport \<Rightarrow> 't fresh \<Rightarrow> string \<Rightarrow> string \<Rightarrow> 't world \<Rightarrow> nat \<times> 't world" where
  "add_name tr fr dummy name w = add_json tr fr dummy (empty_json\<lparr>j_name := Some name\<rparr>) w"

text \<open>
  \<open>MMGDeviceManager::capableDevices\<close>, lines 240-247: the names of the registered devices
  capable of the direction, in registry order.
\<close>

fun capable_names :: "DeviceType \<Rightarrow> 't MMGDevice list \<Rightarrow> nat list \<Rightarrow> string list" where
  "capable_names ty h [] = []"
| "capable_names ty h (a # as) =
     (case deref h a of
        None \<Rightarrow> capable_names ty h as
      | Some d \<Rightarrow>
          if isCapable ty d then objectName d # capable_names ty h as
          else capable_names ty h as)"

definition capableDevices :: "DeviceType \<Rightarrow> 't world \<Rightarrow> string list" where
  "capableDevices ty w = capable_names ty (heap w) (devices w)"

section \<open>Notions used to state the properties\<close>

text \<open>
  \<open>refreshed_by k b b'\<close>: binding \<open>b'\<close> is binding \<open>b\<close> after \<open>k b\<close> invocations of \<open>refresh()\<close>,
  with the same messages. \<open>graph_rel k\<close> lifts this to the whole reference graph,
  collection by collection and binding by binding (a null config is related to itself
  only).
\<close>

definition refreshed_by :: "(MMGBinding \<Rightarrow> nat) \<Rightarrow> MMGBinding \<Rightarrow> MMGBinding \<Rightarrow> bool" where
  "refreshed_by k b b' = (messages b' = messages b \<and> refreshes b' = refreshes b + k b)"

definition graph_rel ::
  "(MMGBinding \<Rightarrow> nat) \<Rightarrow> MMGBindingManager list option \<Rightarrow> MMGBindingManager list option \<Rightarrow> bool" where
  "graph_rel k = rel_option (list_all2 (list_all2 (refreshed_by k)))"

text \<open>The binding's first message names the device; some message of the binding does.\<close>

definition first_names :: "string \<Rightarrow> MMGBinding \<Rightarrow> bool" where
  "first_names name b = (case messages b of [] \<Rightarrow> False | m # _ \<Rightarrow> deviceName m = name)"

definition some_names :: "string \<Rightarrow> MMGBinding \<Rightarrow> bool" where
  "some_names name b = (\<exists>m \<in> set (messages b). deviceName m = name)"

text \<open>
  The step of \<open>add\<close> an event belongs to: removal of the dummy, registration of the new
  device, repointing of a message, refresh of a binding.
\<close>

fun phase :: "event \<Rightarrow> nat" where
  "phase (Removed a) = 0"
| "phase (Registered a) = 1"
| "phase (Repointed m a) = 2"
| "phase (Refreshed b) = 3"

text \<open>All messages of the reference graph, in traversal order.\<close>

definition all_messages :: "MMGBindingManager list option \<Rightarrow> MMGMessage list" where
  "all_messages c = (case c of None \<Rightarrow> [] | Some cs \<Rightarrow> concat (map messages (concat cs)))"

definition all_bindings :: "MMGBindingManager list option \<Rightarrow> MMGBinding list" where
  "all_bindings c = (case c of None \<Rightarrow> [] | Some cs \<Rightarrow> concat cs)"

section \<open>A concrete transport for the examples\<close>

text \<open>
  A transport with two flags (Input open, Output open) and a budget: an open attempt
  succeeds while the budget lasts and uses one unit of it; closing always succeeds. A
  request for the remaining type acts on both ports and reports whether one is open.
\<close>

record ports =
  in_open :: bool
  out_open :: bool
  budget :: nat

definition flag_open :: "DeviceType \<Rightarrow> ports \<Rightarrow> ports" where
  "flag_open ty p =
     (if budget p = 0 then p
      else (case ty of
              TYPE_INPUT \<Rightarrow> p\<lparr>in_open := True, budget := budget p - 1\<rparr>
            | TYPE_OUTPUT \<Rightarrow> p\<lparr>out_open := True, budget := budget p - 1\<rparr>
            | TYPE_EITHER \<Rightarrow> p\<lparr>in_open := True, out_open := True, budget := budget p - 1\<rparr>))"

definition flag_close :: "DeviceType \<Rightarrow> ports \<Rightarrow> ports" where
  "flag_close ty p =
     (case ty of
        TYPE_INPUT \<Rightarrow> p\<lparr>in_open := False\<rparr>
      | TYPE_OUTPUT \<Rightarrow> p\<lparr>out_open := False\<rparr>
      | TYPE_EITHER \<Rightarrow> p\<lparr>in_open := False, out_open := False\<rparr>)"

definition flag_is_open :: "DeviceType \<Rightarrow> ports \<Rightarrow> bool" where
  "flag_is_open ty p =
     (case ty of
        TYPE_INPUT \<Rightarrow> in_open p
      | TYPE_OUTPUT \<Rightarrow> out_open p
      | TYPE_EITHER \<Rightarrow> in_open p \<or> out_open p)"

definition flags :: "ports Transport" where
  "flags = \<lparr>tr_open = flag_open, tr_close = flag_close, tr_is_open = flag_is_open\<rparr>"

definition closed_ports :: "nat \<Rightarrow> ports" where
  "closed_ports n = \<lparr>in_open = False, out_open = False, budget = n\<rparr>"

text \<open>An editable device named A, inactive, with the given capability mask.\<close>

definition device_A :: "uint \<Rightarrow> nat \<Rightarrow> ports MMGDevice" where
  "device_A cap n =
     \<lparr>objectName = ''A'', editable = True, active = 0, capable = cap, thru = [],
      port = closed_ports n, calls = []\<rparr>"

definition no_config :: globals where
  "no_config = \<lparr>config = None, prompts = [], events = []\<rparr>"

text \<open>A reference graph of one collection with two bindings over the names A and B.\<close>

definition msg :: "string \<Rightarrow> MMGMessage" where
  "msg name = \<lparr>deviceName = name, device = None\<rparr>"

definition binding_AB :: MMGBinding where
  "binding_AB = \<lparr>messages = [msg ''A'', msg ''B''], refreshes = 0\<rparr>"

definition binding_BA :: MMGBinding where
  "binding_BA = \<lparr>messages = [msg ''B'', msg ''A''], refreshes = 0\<rparr>"

definition graph_AB :: globals where
  "graph_AB = \<lparr>config = Some [[binding_AB, binding_BA]], prompts = [], events = []\<rparr>"

text \<open>
  Device A with both directions active and both ports open; \<open>n\<close> further open attempts
  will succeed.
\<close>

definition active_A :: "nat \<Rightarrow> ports MMGDevice" where
  "active_A n =
     \<lparr>objectName = ''A'', editable = True, active = 3, capable = 3, thru = [],
      port = \<lparr>in_open = True, out_open = True, budget = n\<rparr>, calls = []\<rparr>"

text \<open>
  A registry holding device A alone (editable, capable of both directions, inactive,
  ports closed) over the reference graph above, and config records for A.
\<close>

definition world_A :: "ports world" where
  "world_A = \<lparr>heap = [device_A 3 5], devices = [0], glob = graph_AB\<rparr>"

definition record_A :: "int \<Rightarrow> QJsonObject" where
  "record_A a = \<lparr>j_name = Some ''A'', j_active = Some a, j_thru = Some ''B''\<rparr>"

text \<open>What the base constructor leaves: editable, capable as given, ports closed.\<close>

definition fresh_ports :: "uint \<Rightarrow> ports fresh" where
  "fresh_ports cap = \<lparr>fresh_editable = True, fresh_capable = cap, fresh_port = closed_ports 5\<rparr>"

text \<open>
  A registry holding the placeholder device alone, an empty registry, and a record that
  carries a name only.
\<close>

definition dummy_device :: "ports MMGDevice" where
  "dummy_device =
     \<lparr>objectName = ''Dummy'', editable = False, active = 0, capable = 0, thru = [],
      port = closed_ports 0, calls = []\<rparr>"

definition world_dummy :: "ports world" where
  "world_dummy = \<lparr>heap = [dummy_device], devices = [0], glob = graph_AB\<rparr>"

definition world_empty :: "ports world" where
  "world_empty = \<lparr>heap = [], devices = [], glob = graph_AB\<rparr>"

definition record_Real :: QJsonObject where
  "record_Real = empty_json\<lparr>j_name := Some ''Real''\<rparr>"

text \<open>A registry holding device A alone, capable of Input only.\<close>

definition world_A_in :: "ports world" where
  "world_A_in = \<lparr>heap = [device_A 1 5], devices = [0], glob = graph_AB\<rparr>"

section \<open>Auxiliary facts\<close>

subsection \<open>The two direction bits\<close>

lemma and_1_bit: "((a::uint) AND 1 \<noteq> 0) = bit a 0"
  by (simp add: and_one_eq bit_0 mod_2_eq_odd)

lemma and_2_bit: "((a::uint) AND 2 \<noteq> 0) = bit a (Suc 0)"
  using and_exp_eq_0_iff_not_bit [of a 1] by simp

lemma isActive_INPUT: "isActive TYPE_INPUT d = bit (active d) 0"
  by (simp add: isActive_def and_1_bit)

lemma isActive_OUTPUT: "isActive TYPE_OUTPUT d = bit (active d) (Suc 0)"
  by (simp add: isActive_def and_2_bit)

lemma isCapable_INPUT: "isCapable TYPE_INPUT d = bit (capable d) 0"
  by (simp add: isCapable_def and_1_bit)

lemma isCapable_OUTPUT: "isCapable TYPE_OUTPUT d = bit (capable d) (Suc 0)"
  by (simp add: isCapable_def and_2_bit)

lemma bit_xor_1_0: "bit ((a::uint) XOR 1) 0 = (\<not> bit a 0)"
  by (simp add: bit_0 even_xor_iff)

lemma bit_xor_1_1: "bit ((a::uint) XOR 1) (Suc 0) = bit a (Suc 0)"
  by (simp add: bit_xor_iff bit_1_iff)

lemma bit_xor_2_0: "bit ((a::uint) XOR 2) 0 = bit a 0"
  by (simp add: bit_0 even_xor_iff)

lemma bit_xor_2_1: "bit ((a::uint) XOR 2) (Suc 0) = (\<not> bit a (Suc 0))"
  using bit_exp_iff [where ?'a = uint, of 1 1] by (simp add: bit_xor_iff)

subsection \<open>The cascade loops in closed form\<close>

lemma refresh_bindings_eq:
  "refresh_bindings needs bs ev =
     (map (\<lambda>b. if needs b then refresh b else b) bs, ev @ map Refreshed (filter needs bs))"
  by (induction bs arbitrary: ev) auto

lemma refresh_collections_eq:
  "refresh_collections needs cs ev =
     (map (map (\<lambda>b. if needs b then refresh b else b)) cs,
      ev @ map Refreshed (filter needs (concat cs)))"
  by (induction cs arbitrary: ev) (auto simp: refresh_bindings_eq)

subsection \<open>Device methods\<close>

lemma activation_cascade_config:
  "config (activation_cascade name g) =
     map_option (map (map (\<lambda>b. if first_message_uses name b then refresh b else b))) (config g)"
  by (cases "config g") (simp_all add: activation_cascade_def refresh_collections_eq)

lemma activation_cascade_prompts: "prompts (activation_cascade name g) = prompts g"
  by (cases "config g") (simp_all add: activation_cascade_def refresh_collections_eq)

lemma first_message_uses_iff:
  "first_message_uses name b = (case messages b of [] \<Rightarrow> False | m # _ \<Rightarrow> deviceName m = name)"
  by (cases "messages b") (simp_all add: first_message_uses_def messages_at_def)

lemma openPort_simps [simp]:
  "objectName (openPort tr ty d) = objectName d"
  "editable (openPort tr ty d) = editable d"
  "active (openPort tr ty d) = active d"
  "capable (openPort tr ty d) = capable d"
  "thru (openPort tr ty d) = thru d"
  "port (openPort tr ty d) = tr_open tr ty (port d)"
  "calls (openPort tr ty d) = calls d @ [OpenPort ty]"
  by (simp_all add: openPort_def)

lemma closePort_simps [simp]:
  "objectName (closePort tr ty d) = objectName d"
  "editable (closePort tr ty d) = editable d"
  "active (closePort tr ty d) = active d"
  "capable (closePort tr ty d) = capable d"
  "thru (closePort tr ty d) = thru d"
  "port (closePort tr ty d) = tr_close tr ty (port d)"
  "calls (closePort tr ty d) = calls d @ [ClosePort ty]"
  by (simp_all add: closePort_def)

lemma isActive_cong: "active d' = active d \<Longrightarrow> isActive ty d' = isActive ty d"
  by (cases ty) (simp_all add: isActive_def)

lemma isCapable_cong: "capable d' = capable d \<Longrightarrow> isCapable ty d' = isCapable ty d"
  by (cases ty) (simp_all add: isCapable_def)

lemma isActive_port_simps [simp]:
  "isActive ty (openPort tr ty' d) = isActive ty d"
  "isActive ty (closePort tr ty' d) = isActive ty d"
  by (rule isActive_cong, simp)+

lemma isCapable_port_simps [simp]:
  "isCapable ty (openPort tr ty' d) = isCapable ty d"
  "isCapable ty (closePort tr ty' d) = isCapable ty d"
  by (rule isCapable_cong, simp)+

lemma isPortOpen_active_update [simp]:
  "isPortOpen tr ty (d\<lparr>active := a\<rparr>) = isPortOpen tr ty d"
  by (simp add: isPortOpen_def)

lemma flip_isActive:
  "ty \<noteq> TYPE_EITHER \<Longrightarrow>
   isActive ty (case ty of TYPE_INPUT \<Rightarrow> d1\<lparr>active := active d1 XOR 1\<rparr>
                      | TYPE_OUTPUT \<Rightarrow> d1\<lparr>active := active d1 XOR 2\<rparr>
                      | TYPE_EITHER \<Rightarrow> d1) = (\<not> isActive ty d1)"
  by (cases ty) (simp_all add: isActive_INPUT isActive_OUTPUT bit_xor_1_0 bit_xor_2_1)

lemma flip_isPortOpen:
  "isPortOpen tr ty' (case ty of TYPE_INPUT \<Rightarrow> d1\<lparr>active := active d1 XOR 1\<rparr>
                      | TYPE_OUTPUT \<Rightarrow> d1\<lparr>active := active d1 XOR 2\<rparr>
                      | TYPE_EITHER \<Rightarrow> d1) = isPortOpen tr ty' d1"
  by (cases ty) simp_all

text \<open>The three ways a call of \<open>setActive\<close> ends: the guard, the failed toggle, the flip.\<close>

lemma setActive_cases:
  assumes "setActive tr ty want (d, g) = (d', g')"
  obtains
    (noop) "\<not> editable d \<or> isActive ty d = want \<or> \<not> isCapable ty d" "d' = d" "g' = g"
  | (failed) "editable d" "isActive ty d \<noteq> want" "isCapable ty d"
      "d' = (if want then openPort tr ty d else closePort tr ty d)"
      "isPortOpen tr ty d' = isActive ty d"
      "g' = promptUser ''PortOpenError'' g"
  | (flipped) "editable d" "isActive ty d \<noteq> want" "isCapable ty d"
      "isPortOpen tr ty (if want then openPort tr ty d else closePort tr ty d) = want"
      "d' = (let d1 = (if want then openPort tr ty d else closePort tr ty d) in
             case ty of TYPE_INPUT \<Rightarrow> d1\<lparr>active := active d1 XOR 1\<rparr>
                      | TYPE_OUTPUT \<Rightarrow> d1\<lparr>active := active d1 XOR 2\<rparr>
                      | TYPE_EITHER \<Rightarrow> d1)"
      "g' = (if want then activation_cascade (objectName d) g else g)"
proof (cases "\<not> editable d \<or> isActive ty d = want \<or> \<not> isCapable ty d")
  case True
  with assms show ?thesis by (intro noop) (auto simp: setActive_def)
next
  case False
  then have g: "editable d" "isActive ty d \<noteq> want" "isCapable ty d" by auto
  define d1 where "d1 = (if want then openPort tr ty d else closePort tr ty d)"
  have d1: "(if \<not> isActive ty d then openPort tr ty d else closePort tr ty d) = d1"
    using g by (auto simp: d1_def)
  have act1: "isActive ty d1 = isActive ty d"
    by (rule isActive_cong) (simp add: d1_def)
  have nm1: "objectName d1 = objectName d"
    by (simp add: d1_def)
  show ?thesis
  proof (cases "isPortOpen tr ty d1 = isActive ty d1")
    case True
    with assms g d1 act1 show ?thesis
      by (intro failed) (auto simp: setActive_def d1_def)
  next
    case False
    with assms g d1 act1 nm1 show ?thesis
      apply (intro flipped)
      apply (auto simp: setActive_def d1_def Let_def split: DeviceType.splits)
      done
  qed
qed

lemma setActive_noop_eq:
  "\<not> editable d \<or> want = isActive ty d \<or> \<not> isCapable ty d
   \<Longrightarrow> setActive tr ty want (d, g) = (d, g)"
  by (auto simp: setActive_def)

subsection \<open>Capability probing\<close>

lemma bit_2_uint: "bit (2::uint) n = (n = Suc 0)"
  using bit_exp_iff [where ?'a = uint, of 1 n] by auto

lemma setCapable_fields [simp]:
  "objectName (setCapable ty c d) = objectName d"
  "editable (setCapable ty c d) = editable d"
  "active (setCapable ty c d) = active d"
  "thru (setCapable ty c d) = thru d"
  "port (setCapable ty c d) = port d"
  "calls (setCapable ty c d) = calls d"
  by (cases ty; simp add: setCapable_def)+

lemma isCapable_setCapable:
  "isCapable TYPE_INPUT (setCapable TYPE_INPUT c d) = c"
  "isCapable TYPE_OUTPUT (setCapable TYPE_OUTPUT c d) = c"
  "isCapable TYPE_OUTPUT (setCapable TYPE_INPUT c d) = isCapable TYPE_OUTPUT d"
  "isCapable TYPE_INPUT (setCapable TYPE_OUTPUT c d) = isCapable TYPE_INPUT d"
  by (simp_all add: isCapable_INPUT isCapable_OUTPUT setCapable_def bit_or_iff bit_and_iff
      bit_not_iff bit_2_uint bit_1_iff bit_0 even_or_iff even_and_iff)

lemma isActive_setCapable [simp]: "isActive ty' (setCapable ty c d) = isActive ty' d"
  by (rule isActive_cong) simp

lemma isPortOpen_setCapable [simp]: "isPortOpen tr ty' (setCapable ty c d) = isPortOpen tr ty' d"
  by (simp add: isPortOpen_def)

lemma isActive_zero [simp]: "\<not> isActive ty (d\<lparr>active := 0\<rparr>)"
  by (cases ty) (simp_all add: isActive_def)

lemma run_calls_simps [simp]:
  "run_calls tr [] p = p"
  "run_calls tr (OpenPort ty # cs) p = run_calls tr cs (tr_open tr ty p)"
  "run_calls tr (ClosePort ty # cs) p = run_calls tr cs (tr_close tr ty p)"
  by (simp_all add: run_calls_def)

lemma setActive_calls_exact:
  assumes "setActive tr ty want (d, g) = (d', g')"
  shows "calls d' = calls d @
     (if editable d \<and> isActive ty d \<noteq> want \<and> isCapable ty d
      then [if want then OpenPort ty else ClosePort ty] else [])"
  using assms
proof (cases rule: setActive_cases)
  case noop
  then show ?thesis by auto
next
  case failed
  then show ?thesis by (cases want) simp_all
next
  case flipped
  then show ?thesis by (cases want; cases ty) (simp_all add: Let_def)
qed

lemma checkCapable_steps:
  assumes "checkCapable tr (d, g) = (d', g')"
  obtains d8 d9 g9 where
    "active d8 = 0" "editable d8 = editable d" "objectName d8 = objectName d"
    "thru d8 = thru d"
    "calls d8 = calls d @ [ClosePort TYPE_INPUT, ClosePort TYPE_OUTPUT, OpenPort TYPE_INPUT,
        OpenPort TYPE_OUTPUT, ClosePort TYPE_INPUT, ClosePort TYPE_OUTPUT]"
    "port d8 = run_calls tr [ClosePort TYPE_INPUT, ClosePort TYPE_OUTPUT, OpenPort TYPE_INPUT,
        OpenPort TYPE_OUTPUT, ClosePort TYPE_INPUT, ClosePort TYPE_OUTPUT] (port d)"
    "isCapable TYPE_INPUT d8 = tr_is_open tr TYPE_INPUT
        (run_calls tr [ClosePort TYPE_INPUT, ClosePort TYPE_OUTPUT, OpenPort TYPE_INPUT] (port d))"
    "isCapable TYPE_OUTPUT d8 = tr_is_open tr TYPE_OUTPUT
        (run_calls tr [ClosePort TYPE_INPUT, ClosePort TYPE_OUTPUT, OpenPort TYPE_INPUT,
           OpenPort TYPE_OUTPUT] (port d))"
    "setActive tr TYPE_INPUT (isActive TYPE_INPUT d) (d8, g) = (d9, g9)"
    "setActive tr TYPE_OUTPUT (isActive TYPE_OUTPUT d) (d9, g9) = (d', g')"
proof -
  define d3 where "d3 = openPort tr TYPE_INPUT
      (closePort tr TYPE_OUTPUT (closePort tr TYPE_INPUT (d\<lparr>active := 0\<rparr>)))"
  define d5 where "d5 = openPort tr TYPE_OUTPUT
      (setCapable TYPE_INPUT (isPortOpen tr TYPE_INPUT d3) d3)"
  define d8 where "d8 = closePort tr TYPE_OUTPUT (closePort tr TYPE_INPUT
      (setCapable TYPE_OUTPUT (isPortOpen tr TYPE_OUTPUT d5) d5))"
  obtain d9 g9 where s9: "setActive tr TYPE_INPUT (isActive TYPE_INPUT d) (d8, g) = (d9, g9)"
    by (cases "setActive tr TYPE_INPUT (isActive TYPE_INPUT d) (d8, g)") simp
  have fin: "setActive tr TYPE_OUTPUT (isActive TYPE_OUTPUT d) (d9, g9) = (d', g')"
    using assms s9
    by (simp add: checkCapable_def Let_def d8_def d5_def d3_def isActive_def)
  show ?thesis
  proof (rule that [OF _ _ _ _ _ _ _ _ s9 fin])
    show "active d8 = 0" by (simp add: d8_def d5_def d3_def)
    show "editable d8 = editable d" by (simp add: d8_def d5_def d3_def)
    show "objectName d8 = objectName d" by (simp add: d8_def d5_def d3_def)
    show "thru d8 = thru d" by (simp add: d8_def d5_def d3_def)
    show "calls d8 = calls d @ [ClosePort TYPE_INPUT, ClosePort TYPE_OUTPUT, OpenPort TYPE_INPUT,
        OpenPort TYPE_OUTPUT, ClosePort TYPE_INPUT, ClosePort TYPE_OUTPUT]"
      by (simp add: d8_def d5_def d3_def)
    show "port d8 = run_calls tr [ClosePort TYPE_INPUT, ClosePort TYPE_OUTPUT, OpenPort TYPE_INPUT,
        OpenPort TYPE_OUTPUT, ClosePort TYPE_INPUT, ClosePort TYPE_OUTPUT] (port d)"
      by (simp add: d8_def d5_def d3_def)
    show "isCapable TYPE_INPUT d8 = tr_is_open tr TYPE_INPUT
        (run_calls tr [ClosePort TYPE_INPUT, ClosePort TYPE_OUTPUT, OpenPort TYPE_INPUT] (port d))"
      by (simp add: d8_def d5_def isCapable_setCapable) (simp add: d3_def isPortOpen_def)
    show "isCapable TYPE_OUTPUT d8 = tr_is_open tr TYPE_OUTPUT
        (run_calls tr [ClosePort TYPE_INPUT, ClosePort TYPE_OUTPUT, OpenPort TYPE_INPUT,
           OpenPort TYPE_OUTPUT] (port d))"
      by (simp add: d8_def isCapable_setCapable) (simp add: d5_def d3_def isPortOpen_def)
  qed
qed

lemma setActive_preserves:
  assumes "setActive tr ty want (d, g) = (d', g')"
  shows "objectName d' = objectName d" "capable d' = capable d" "thru d' = thru d"
    "editable d' = editable d"
  using assms
  by (cases rule: setActive_cases; cases ty; cases want; simp add: Let_def)+

lemma setActive_other:
  assumes "setActive tr ty want (d, g) = (d', g')" and "ty' \<noteq> ty" and "ty' \<noteq> TYPE_EITHER"
  shows "isActive ty' d' = isActive ty' d"
  using assms(1)
proof (cases rule: setActive_cases)
  case flipped
  with assms(2,3) show ?thesis
    by (cases ty; cases ty'; cases want)
      (simp_all add: Let_def isActive_INPUT isActive_OUTPUT bit_xor_1_1 bit_xor_2_0)
qed (auto intro: isActive_cong)

lemma setActive_prompts:
  assumes "setActive tr ty want (d, g) = (d', g')"
  shows "\<exists>ps. prompts g' = prompts g @ ps"
  using assms
  by (cases rule: setActive_cases) (auto simp: promptUser_def activation_cascade_prompts)

lemma setActive_becomes_active:
  assumes "setActive tr ty want (d, g) = (d', g')" and "ty \<noteq> TYPE_EITHER"
    and "isActive ty d'" and "\<not> isActive ty d"
  shows "want \<and> isCapable ty d"
  using assms(1)
proof (cases rule: setActive_cases)
  case noop
  with assms show ?thesis by simp
next
  case failed
  with assms show ?thesis by (cases want) simp_all
next
  case flipped
  with assms show ?thesis by (cases want) (simp_all add: Let_def flip_isActive)
qed

lemma setActive_activates:
  assumes "setActive tr ty True (d, g) = (d', g')" and "ty \<noteq> TYPE_EITHER"
    and "editable d" and "isCapable ty d" and "prompts g' = prompts g"
  shows "isActive ty d'"
  using assms(1)
proof (cases rule: setActive_cases)
  case noop
  with assms show ?thesis by simp
next
  case failed
  with assms show ?thesis by (simp add: promptUser_def)
next
  case flipped
  with assms show ?thesis by (simp add: Let_def flip_isActive)
qed

subsection \<open>Relating the reference graph before and after a cascade\<close>

lemma list_all2_map_same:
  "(\<And>x. x \<in> set xs \<Longrightarrow> P x (f x)) \<Longrightarrow> list_all2 P xs (map f xs)"
  by (induction xs) auto



subsection \<open>The reference graph under refreshes\<close>

lemma first_names_eq: "first_message_uses name b = first_names name b"
  by (simp add: first_message_uses_iff first_names_def)

lemma any_message_uses_iff: "any_message_uses name ms = (\<exists>m \<in> set ms. deviceName m = name)"
  by (induction ms) auto

lemma some_names_eq: "any_message_uses name (messages b) = some_names name b"
  by (simp add: any_message_uses_iff some_names_def)

lemma first_names_some: "first_names name b \<Longrightarrow> some_names name b"
  by (cases "messages b") (auto simp: first_names_def some_names_def)

lemma some_names_cong: "messages b' = messages b \<Longrightarrow> some_names name b' = some_names name b"
  by (simp add: some_names_def)

lemma graph_rel_refl: "graph_rel (\<lambda>b. 0) c c"
  by (cases c) (simp_all add: graph_rel_def refreshed_by_def list_all2_refl)

lemma graph_rel_map:
  "graph_rel (\<lambda>b. if needs b then 1 else 0) c
     (map_option (map (map (\<lambda>b. if needs b then refresh b else b))) c)"
  by (cases c)
    (auto simp: graph_rel_def refreshed_by_def refresh_def intro!: list_all2_map_same)

lemma list_all2_trans2:
  assumes "list_all2 P xs ys" and "list_all2 Q ys zs"
    and "\<And>x y z. P x y \<Longrightarrow> Q y z \<Longrightarrow> R x z"
  shows "list_all2 R xs zs"
  using assms(1,2)
proof (induction arbitrary: zs rule: list_all2_induct)
  case Nil
  then show ?case by simp
next
  case (Cons x xs y ys)
  then show ?case by (cases zs) (auto intro: assms(3))
qed

lemma graph_rel_trans:
  assumes "graph_rel k c1 c2" and "graph_rel l c2 c3"
    and "\<And>b b'. messages b' = messages b \<Longrightarrow> l b' = l' b"
  shows "graph_rel (\<lambda>b. k b + l' b) c1 c3"
proof (cases c1)
  case None
  with assms show ?thesis by (cases c2; cases c3) (simp_all add: graph_rel_def)
next
  case (Some a)
  with assms(1,2) obtain a2 a3 where c: "c2 = Some a2" "c3 = Some a3"
    by (cases c2; cases c3) (simp_all add: graph_rel_def)
  have "list_all2 (list_all2 (refreshed_by (\<lambda>b. k b + l' b))) a a3"
  proof (rule list_all2_trans2)
    show "list_all2 (list_all2 (refreshed_by k)) a a2"
      using assms(1) Some c by (simp add: graph_rel_def)
    show "list_all2 (list_all2 (refreshed_by l)) a2 a3"
      using assms(2) Some c by (simp add: graph_rel_def)
    show "list_all2 (refreshed_by (\<lambda>b. k b + l' b)) x z"
      if "list_all2 (refreshed_by k) x y" "list_all2 (refreshed_by l) y z" for x y z
      using that
      by (rule list_all2_trans2) (auto simp: refreshed_by_def assms(3))
  qed
  with Some c show ?thesis by (simp add: graph_rel_def)
qed

lemma graph_rel_cong:
  "graph_rel k c c' \<Longrightarrow> (\<And>b. k b = k' b) \<Longrightarrow> graph_rel k' c c'"
proof -
  assume a: "graph_rel k c c'" and "\<And>b. k b = k' b"
  then have "k = k'" by auto
  with a show ?thesis by simp
qed

subsection \<open>\<open>setActive\<close> and \<open>update\<close> on the reference graph\<close>

lemma and_3_nonzero:
  "((a::uint) AND 1 \<noteq> 0 \<or> a AND 2 \<noteq> 0) \<Longrightarrow> a AND 3 \<noteq> 0"
proof
  assume h: "a AND 1 \<noteq> 0 \<or> a AND 2 \<noteq> 0" and z: "a AND 3 = 0"
  have "bit (a AND 3) 0 = bit a 0" "bit (a AND 3) (Suc 0) = bit a (Suc 0)"
    by (simp_all add: bit_and_iff bit_0 bit_numeral_simps even_and_iff)
  with z h show False by (simp add: and_1_bit and_2_bit)
qed

lemma activation_cascade_events:
  "events (activation_cascade name g) =
     events g @ map Refreshed (filter (first_names name) (all_bindings (config g)))"
  by (cases "config g")
    (simp_all add: activation_cascade_def refresh_collections_eq all_bindings_def first_names_eq [abs_def])

lemma activation_cascade_graph:
  "graph_rel (\<lambda>b. if first_names name b then 1 else 0) (config g)
     (config (activation_cascade name g))"
  using graph_rel_map [of "first_names name" "config g"]
  by (simp add: activation_cascade_config first_names_eq [abs_def])

lemma setActive_graph:
  assumes "setActive tr ty want (d, g) = (d', g')"
  obtains n evs where "n \<le> 1"
    "graph_rel (\<lambda>b. if first_names (objectName d) b then n else 0) (config g) (config g')"
    "events g' = events g @ evs"
    "\<forall>e \<in> set evs. \<exists>b. e = Refreshed b \<and> first_names (objectName d) b"
    "n = 0 \<longrightarrow> evs = []"
    "0 < n \<longrightarrow> want \<and> editable d \<and> isCapable ty d"
  using assms
proof (cases rule: setActive_cases)
  case noop
  then show ?thesis
    by (intro that [of 0 "[]"]) (simp_all add: graph_rel_refl)
next
  case failed
  then show ?thesis
    by (intro that [of 0 "[]"]) (simp_all add: graph_rel_refl promptUser_def)
next
  case flipped
  show ?thesis
  proof (cases want)
    case True
    with flipped have g': "g' = activation_cascade (objectName d) g" by simp
    show ?thesis
    proof (rule that [of 1 "map Refreshed (filter (first_names (objectName d))
        (all_bindings (config g)))"])
      show "graph_rel (\<lambda>b. if first_names (objectName d) b then 1 else 0) (config g) (config g')"
        by (simp add: g' activation_cascade_graph)
      show "events g' = events g @ map Refreshed (filter (first_names (objectName d))
          (all_bindings (config g)))"
        by (simp add: g' activation_cascade_events)
      show "0 < (1::nat) \<longrightarrow> want \<and> editable d \<and> isCapable ty d"
        using flipped True by simp
    qed auto
  next
    case False
    with flipped show ?thesis
      by (intro that [of 0 "[]"]) (simp_all add: graph_rel_refl)
  qed
qed

lemma update_steps:
  assumes "update tr j (d, g) = (d', g')"
  obtains d1 g1 d2 where
    "setActive tr TYPE_INPUT (word_of_int (toInt (j_active j)) AND (1::uint) \<noteq> 0) (d, g) = (d1, g1)"
    "setActive tr TYPE_OUTPUT (word_of_int (toInt (j_active j)) AND (2::uint) \<noteq> 0) (d1, g1) = (d2, g')"
    "d' = d2\<lparr>thru := toString (j_thru j)\<rparr>"
proof -
  obtain d1 g1 where s1: "setActive tr TYPE_INPUT (word_of_int (toInt (j_active j)) AND (1::uint) \<noteq> 0) (d, g) = (d1, g1)"
    by (cases "setActive tr TYPE_INPUT (word_of_int (toInt (j_active j)) AND (1::uint) \<noteq> 0) (d, g)") simp
  obtain d2 g2 where s2: "setActive tr TYPE_OUTPUT (word_of_int (toInt (j_active j)) AND (2::uint) \<noteq> 0) (d1, g1) = (d2, g2)"
    by (cases "setActive tr TYPE_OUTPUT (word_of_int (toInt (j_active j)) AND (2::uint) \<noteq> 0) (d1, g1)") simp
  have "update tr j (d, g) = (d2\<lparr>thru := toString (j_thru j)\<rparr>, g2)"
    using s1 s2 by (auto simp: update_def Let_def split: if_splits)
  with assms s1 s2 that show ?thesis by simp
qed

lemma update_device:
  assumes "update tr j (d, g) = (d', g')"
  shows "objectName d' = objectName d \<and> capable d' = capable d \<and> editable d' = editable d
    \<and> thru d' = toString (j_thru j)"
  using assms
proof (cases rule: update_steps)
  case (1 d1 g1 d2)
  from setActive_preserves [OF 1(1)] setActive_preserves [OF 1(2)] 1(3)
  show ?thesis by simp
qed

lemma update_graph:
  assumes "update tr j (d, g) = (d', g')"
  obtains n evs where "n \<le> 2"
    "graph_rel (\<lambda>b. if first_names (objectName d) b then n else 0) (config g) (config g')"
    "events g' = events g @ evs"
    "\<forall>e \<in> set evs. \<exists>b. e = Refreshed b \<and> first_names (objectName d) b"
    "n = 0 \<longrightarrow> evs = []"
    "0 < n \<longrightarrow> editable d \<and> (isCapable TYPE_INPUT d \<or> isCapable TYPE_OUTPUT d)
            \<and> (word_of_int (toInt (j_active j)) :: uint) AND 3 \<noteq> 0"
  using assms
proof (cases rule: update_steps)
  case (1 d1 g1 d2)
  let ?a = "word_of_int (toInt (j_active j)) :: uint"
  let ?name = "objectName d"
  have nm: "objectName d1 = ?name" and ed: "editable d1 = editable d"
    and cp: "capable d1 = capable d"
    using setActive_preserves [OF 1(1)] by simp_all
  have cap1: "isCapable ty d1 = isCapable ty d" for ty
    by (rule isCapable_cong [OF cp])
  from 1(1) obtain n1 e1 where a: "n1 \<le> 1"
      "graph_rel (\<lambda>b. if first_names ?name b then n1 else 0) (config g) (config g1)"
      "events g1 = events g @ e1"
      "\<forall>e \<in> set e1. \<exists>b. e = Refreshed b \<and> first_names ?name b"
      "n1 = 0 \<longrightarrow> e1 = []"
      "0 < n1 \<longrightarrow> ?a AND 1 \<noteq> 0 \<and> editable d \<and> isCapable TYPE_INPUT d"
    by (rule setActive_graph)
  from 1(2) obtain n2 e2 where b: "n2 \<le> 1"
      "graph_rel (\<lambda>b. if first_names ?name b then n2 else 0) (config g1) (config g')"
      "events g' = events g1 @ e2"
      "\<forall>e \<in> set e2. \<exists>b. e = Refreshed b \<and> first_names ?name b"
      "n2 = 0 \<longrightarrow> e2 = []"
      "0 < n2 \<longrightarrow> ?a AND 2 \<noteq> 0 \<and> editable d \<and> isCapable TYPE_OUTPUT d"
    unfolding nm [symmetric] ed [symmetric] cap1 [symmetric]
    by (rule setActive_graph)
  have rel: "graph_rel (\<lambda>b. if first_names ?name b then n1 + n2 else 0) (config g) (config g')"
  proof (rule graph_rel_cong)
    show "graph_rel (\<lambda>b. (if first_names ?name b then n1 else 0)
        + (if first_names ?name b then n2 else 0)) (config g) (config g')"
      by (rule graph_rel_trans [OF a(2) b(2)]) (simp add: first_names_def)
  qed simp
  have bits: "?a AND 3 \<noteq> 0" if "?a AND 1 \<noteq> 0 \<or> ?a AND 2 \<noteq> 0"
    using that by (rule and_3_nonzero)
  have le: "n1 + n2 \<le> 2" using a(1) b(1) by simp
  have ev: "events g' = events g @ (e1 @ e2)" using a(3) b(3) by simp
  have all: "\<forall>e \<in> set (e1 @ e2). \<exists>b. e = Refreshed b \<and> first_names ?name b"
    using a(4) b(4) by auto
  have zero: "n1 + n2 = 0 \<longrightarrow> e1 @ e2 = []" using a(5) b(5) by simp
  have pos: "0 < n1 + n2 \<longrightarrow> editable d \<and> (isCapable TYPE_INPUT d \<or> isCapable TYPE_OUTPUT d)
            \<and> ?a AND 3 \<noteq> 0"
    using a(6) b(6) bits by (cases "n1 = 0"; cases "n2 = 0") simp_all
  from le rel ev all zero pos show ?thesis by (rule that)
qed

subsection \<open>Registry loops in closed form\<close>

lemma repoint_messages_eq:
  "repoint_messages hit a ms ev =
     (map (\<lambda>m. if hit m then m\<lparr>device := Some a\<rparr> else m) ms,
      ev @ map (\<lambda>m. Repointed m a) (filter hit ms))"
  by (induction ms arbitrary: ev) auto

lemma repoint_bindings_eq:
  "repoint_bindings hit a bs ev =
     (map (\<lambda>b. b\<lparr>messages := map (\<lambda>m. if hit m then m\<lparr>device := Some a\<rparr> else m) (messages b)\<rparr>) bs,
      ev @ map (\<lambda>m. Repointed m a) (filter hit (concat (map messages bs))))"
  by (induction bs arbitrary: ev) (auto simp: repoint_messages_eq)

lemma repoint_collections_eq:
  "repoint_collections hit a cs ev =
     (map (map (\<lambda>b. b\<lparr>messages := map (\<lambda>m. if hit m then m\<lparr>device := Some a\<rparr> else m) (messages b)\<rparr>)) cs,
      ev @ map (\<lambda>m. Repointed m a) (filter hit (concat (map messages (concat cs)))))"
  by (induction cs arbitrary: ev) (auto simp: repoint_bindings_eq)

lemma refreshBindingsForDevice_config:
  "config (refreshBindingsForDevice name g) =
     map_option (map (map (\<lambda>b. if some_names name b then refresh b else b))) (config g)"
  by (cases "config g")
    (simp_all add: refreshBindingsForDevice_def refresh_collections_eq some_names_eq)

lemma refreshBindingsForDevice_events:
  "events (refreshBindingsForDevice name g) =
     events g @ map Refreshed (filter (some_names name) (all_bindings (config g)))"
  by (cases "config g")
    (simp_all add: refreshBindingsForDevice_def refresh_collections_eq some_names_eq all_bindings_def)

lemma refreshBindingsForDevice_prompts:
  "prompts (refreshBindingsForDevice name g) = prompts g"
  by (cases "config g")
    (simp_all add: refreshBindingsForDevice_def refresh_collections_eq)

lemma refreshBindingsForDevice_graph:
  "graph_rel (\<lambda>b. if some_names name b then 1 else 0) (config g)
     (config (refreshBindingsForDevice name g))"
  using graph_rel_map [of "some_names name" "config g"]
  by (simp add: refreshBindingsForDevice_config)

lemma find_in_Some:
  "find_in h as name = Some a \<Longrightarrow> a \<in> set as \<and> a < length h \<and> objectName (h ! a) = name"
  by (induction as) (auto simp: deref_def split: if_splits)

subsection \<open>Worked examples\<close>

lemmas example_defs = device_A_def graph_AB_def flags_def flag_open_def flag_close_def
  flag_is_open_def closed_ports_def binding_AB_def binding_BA_def msg_def no_config_def

lemmas method_defs = setActive_def isActive_def isCapable_def openPort_def closePort_def
  isPortOpen_def activation_cascade_def first_message_uses_def messages_at_def refresh_def
  promptUser_def

lemma device_A_fields:
  "objectName (device_A c n) = ''A''" "editable (device_A c n)" "active (device_A c n) = 0"
  "capable (device_A c n) = c" "thru (device_A c n) = []" "calls (device_A c n) = []"
  "port (device_A c n) = closed_ports n"
  by (simp_all add: device_A_def)

lemma setActive_A_out:
  "setActive flags TYPE_OUTPUT True (device_A 3 5, graph_AB) =
    (\<lparr>objectName = ''A'', editable = True, active = 2, capable = 3, thru = [],
      port = \<lparr>in_open = False, out_open = True, budget = 4\<rparr>, calls = [OpenPort TYPE_OUTPUT]\<rparr>,
     \<lparr>config = Some [[refresh binding_AB, binding_BA]], prompts = [],
      events = [Refreshed binding_AB]\<rparr>)"
  by (simp add: method_defs example_defs)

lemma setActive_A_out_fail:
  "setActive flags TYPE_OUTPUT True (device_A 3 0, graph_AB) =
    (\<lparr>objectName = ''A'', editable = True, active = 0, capable = 3, thru = [],
      port = \<lparr>in_open = False, out_open = False, budget = 0\<rparr>, calls = [OpenPort TYPE_OUTPUT]\<rparr>,
     graph_AB\<lparr>prompts := [''PortOpenError'']\<rparr>)"
  by (simp add: method_defs example_defs)

lemma setActive_A_incapable:
  "setActive flags TYPE_OUTPUT True (device_A 1 5, graph_AB) = (device_A 1 5, graph_AB)"
  by (simp add: method_defs example_defs)


lemma checkCapable_active_A_4:
  "checkCapable flags (active_A 4, no_config) =
    (\<lparr>objectName = ''A'', editable = True, active = 3, capable = 3, thru = [],
      port = \<lparr>in_open = True, out_open = True, budget = 0\<rparr>,
      calls = [ClosePort TYPE_INPUT, ClosePort TYPE_OUTPUT, OpenPort TYPE_INPUT,
        OpenPort TYPE_OUTPUT, ClosePort TYPE_INPUT, ClosePort TYPE_OUTPUT,
        OpenPort TYPE_INPUT, OpenPort TYPE_OUTPUT]\<rparr>,
     no_config)"
  by code_simp

lemma checkCapable_active_A_2:
  "checkCapable flags (active_A 2, no_config) =
    (\<lparr>objectName = ''A'', editable = True, active = 0, capable = 3, thru = [],
      port = \<lparr>in_open = False, out_open = False, budget = 0\<rparr>,
      calls = [ClosePort TYPE_INPUT, ClosePort TYPE_OUTPUT, OpenPort TYPE_INPUT,
        OpenPort TYPE_OUTPUT, ClosePort TYPE_INPUT, ClosePort TYPE_OUTPUT,
        OpenPort TYPE_INPUT, OpenPort TYPE_OUTPUT]\<rparr>,
     \<lparr>config = None, prompts = [''PortOpenError'', ''PortOpenError''], events = []\<rparr>)"
  by code_simp

lemma checkCapable_device_A:
  "checkCapable flags (device_A 0 5, no_config) =
    (\<lparr>objectName = ''A'', editable = True, active = 0, capable = 3, thru = [],
      port = \<lparr>in_open = False, out_open = False, budget = 3\<rparr>,
      calls = [ClosePort TYPE_INPUT, ClosePort TYPE_OUTPUT, OpenPort TYPE_INPUT,
        OpenPort TYPE_OUTPUT, ClosePort TYPE_INPUT, ClosePort TYPE_OUTPUT]\<rparr>,
     no_config)"
  by code_simp

lemma list_all2_refreshed_messages:
  "list_all2 (refreshed_by k) bs bs' \<Longrightarrow> map messages bs' = map messages bs"
  by (induction rule: list_all2_induct) (simp_all add: refreshed_by_def)

lemma list_all2_refreshed_concat:
  "list_all2 (list_all2 (refreshed_by k)) cs cs'
   \<Longrightarrow> map messages (concat cs') = map messages (concat cs)"
  by (induction rule: list_all2_induct) (simp_all add: list_all2_refreshed_messages)

lemma graph_rel_bindings:
  "graph_rel k c c' \<Longrightarrow> map messages (all_bindings c') = map messages (all_bindings c)"
  by (cases c; cases c') (simp_all add: graph_rel_def all_bindings_def list_all2_refreshed_concat)

lemma all_messages_bindings: "all_messages c = concat (map messages (all_bindings c))"
  by (cases c) (simp_all add: all_messages_def all_bindings_def)

lemma graph_rel_messages: "graph_rel k c c' \<Longrightarrow> all_messages c' = all_messages c"
  by (simp add: all_messages_bindings graph_rel_bindings)

lemma graph_rel_mono:
  assumes "graph_rel k c c'"
    and "\<And>b b'. messages b' = messages b \<Longrightarrow> refreshes b' = refreshes b + k b \<Longrightarrow> P b b'"
  shows "rel_option (list_all2 (list_all2 P)) c c'"
  using assms(1) unfolding graph_rel_def
  by (rule option.rel_mono_strong, elim list.rel_mono_strong)
    (simp add: refreshed_by_def assms(2))

lemma add_json_existing_eq:
  assumes "find_device w (toString (j_name j)) = Some a"
    and "update tr j (heap w ! a, glob w) = (d', g')"
  shows "add_json tr fr dummy j w =
     (a, w\<lparr>heap := (heap w)[a := d'],
           glob := refreshBindingsForDevice (toString (j_name j)) g'\<rparr>)"
  using assms by (simp add: add_json_def Let_def)


lemma add_json_world_A:
  "add_json flags (fresh_ports 3) ''Dummy'' (record_A 2) world_A =
    (0, \<lparr>heap = [\<lparr>objectName = ''A'', editable = True, active = 2, capable = 3, thru = ''B'',
                   port = \<lparr>in_open = False, out_open = True, budget = 4\<rparr>,
                   calls = [OpenPort TYPE_OUTPUT]\<rparr>],
         devices = [0],
         glob = \<lparr>config = Some [[binding_AB\<lparr>refreshes := 2\<rparr>, binding_BA\<lparr>refreshes := 1\<rparr>]],
                 prompts = [],
                 events = [Refreshed binding_AB, Refreshed (binding_AB\<lparr>refreshes := 1\<rparr>),
                           Refreshed binding_BA]\<rparr>\<rparr>)"
  by code_simp

lemma updateDeviceReferences_fields [simp]:
  "heap (updateDeviceReferences name a w) = heap w"
  "devices (updateDeviceReferences name a w) = devices w"
  "prompts (glob (updateDeviceReferences name a w)) = prompts (glob w)"
  by (cases "config (glob w)"; simp add: updateDeviceReferences_def repoint_collections_eq)+

lemma updateDeviceReferences_config:
  "config (glob (updateDeviceReferences name a w)) =
     map_option (map (map (\<lambda>b. b\<lparr>messages :=
        map (\<lambda>m. if stale_or_named (heap w) name m then m\<lparr>device := Some a\<rparr> else m)
          (messages b)\<rparr>))) (config (glob w))"
  by (cases "config (glob w)") (simp_all add: updateDeviceReferences_def repoint_collections_eq)

lemma updateDeviceReferences_events:
  "events (glob (updateDeviceReferences name a w)) =
     events (glob w) @ map (\<lambda>m. Repointed m a)
       (filter (stale_or_named (heap w) name) (all_messages (config (glob w))))"
  by (cases "config (glob w)")
    (simp_all add: updateDeviceReferences_def repoint_collections_eq all_messages_def)

lemma all_messages_map:
  "all_messages (map_option (map (map (\<lambda>b. b\<lparr>messages := map f (messages b)\<rparr>))) c)
     = map f (all_messages c)"
proof (cases c)
  case None
  then show ?thesis by (simp add: all_messages_def)
next
  case (Some cs)
  have "concat (map messages (map (\<lambda>b. b\<lparr>messages := map f (messages b)\<rparr>) bs))
      = map f (concat (map messages bs))" for bs :: "MMGBinding list"
    by (induction bs) simp_all
  then have "concat (map messages (concat (map (map (\<lambda>b. b\<lparr>messages := map f (messages b)\<rparr>)) cs)))
      = map f (concat (map messages (concat cs)))"
    by (induction cs) simp_all
  with Some show ?thesis by (simp add: all_messages_def)
qed

lemma list_all2_concat:
  "list_all2 (list_all2 P) xss yss \<Longrightarrow> list_all2 P (concat xss) (concat yss)"
  by (induction rule: list_all2_induct) (simp_all add: list_all2_appendI)

lemma graph_rel_all_bindings:
  "graph_rel k c c' \<Longrightarrow> list_all2 (refreshed_by k) (all_bindings c) (all_bindings c')"
  by (cases c; cases c') (simp_all add: graph_rel_def all_bindings_def list_all2_concat)

lemma refreshed_filter:
  "list_all2 (refreshed_by k) bs bs' \<Longrightarrow>
   map messages (filter (some_names name) bs') = map messages (filter (some_names name) bs)"
proof (induction rule: list_all2_induct)
  case Nil
  then show ?case by simp
next
  case (Cons b bs b' bs')
  from Cons(1) have "messages b' = messages b" by (simp add: refreshed_by_def)
  then have "some_names name b' = some_names name b" by (rule some_names_cong)
  with Cons \<open>messages b' = messages b\<close> show ?case by simp
qed

lemma find_in_None_iff:
  "find_in h as name = None \<longleftrightarrow> (\<forall>a \<in> set as. a < length h \<longrightarrow> objectName (h ! a) \<noteq> name)"
  by (induction as) (auto simp: deref_def)

lemma find_in_extend:
  "find_in h as name = None \<Longrightarrow> objectName d = name
   \<Longrightarrow> find_in (h @ [d]) (as @ [length h]) name = Some (length h)"
proof (induction as)
  case Nil
  then show ?case by (simp add: deref_def)
next
  case (Cons a as)
  from Cons.prems(1) have rest: "find_in h as name = None"
    by (auto simp: deref_def split: if_splits)
  from Cons.prems(1) have here: "a < length h \<Longrightarrow> objectName (h ! a) \<noteq> name"
    by (auto simp: deref_def split: if_splits)
  consider "a < length h" | "a = length h" | "length h < a" by arith
  then show ?case
  proof cases
    case 1
    with here Cons.IH [OF rest Cons.prems(2)] show ?thesis
      by (simp add: deref_def nth_append)
  next
    case 2
    with Cons.prems(2) show ?thesis by (simp add: deref_def)
  next
    case 3
    with Cons.IH [OF rest Cons.prems(2)] show ?thesis by (simp add: deref_def)
  qed
qed

lemma find_in_remove1:
  "find_in h as name = None \<Longrightarrow> find_in h (remove1 a as) name = None"
  unfolding find_in_None_iff using set_remove1_subset [of a as] by blast

lemma add_json_world_dummy:
  "add_json flags (fresh_ports 3) ''Dummy'' record_Real world_dummy =
    (1, \<lparr>heap = [dummy_device,
                 \<lparr>objectName = ''Real'', editable = True, active = 0, capable = 3, thru = [],
                   port = closed_ports 5, calls = []\<rparr>],
         devices = [1],
         glob = \<lparr>config = Some [[\<lparr>messages = [\<lparr>deviceName = ''A'', device = Some 1\<rparr>,
                                               \<lparr>deviceName = ''B'', device = Some 1\<rparr>],
                                   refreshes = 0\<rparr>,
                                 \<lparr>messages = [\<lparr>deviceName = ''B'', device = Some 1\<rparr>,
                                               \<lparr>deviceName = ''A'', device = Some 1\<rparr>],
                                   refreshes = 0\<rparr>]],
                 prompts = [],
                 events = [Removed 0, Registered 1, Repointed (msg ''A'') 1, Repointed (msg ''B'') 1,
                           Repointed (msg ''B'') 1, Repointed (msg ''A'') 1]\<rparr>\<rparr>)"
  by code_simp

lemma add_json_world_empty_events:
  "events (glob (snd (add_json flags (fresh_ports 3) ''Dummy'' (record_A 2) world_empty))) =
     [Refreshed binding_AB, Registered 0,
      Repointed (msg ''A'') 0, Repointed (msg ''B'') 0, Repointed (msg ''B'') 0,
      Repointed (msg ''A'') 0,
      Refreshed \<lparr>messages = [\<lparr>deviceName = ''A'', device = Some 0\<rparr>,
                              \<lparr>deviceName = ''B'', device = Some 0\<rparr>], refreshes = 1\<rparr>,
      Refreshed \<lparr>messages = [\<lparr>deviceName = ''B'', device = Some 0\<rparr>,
                              \<lparr>deviceName = ''A'', device = Some 0\<rparr>], refreshes = 0\<rparr>]"
  by code_simp

subsection \<open>The active mask through \<open>update\<close> and \<open>add\<close>\<close>

lemma setActive_sets:
  assumes "setActive tr ty want (d, g) = (d', g')" and "ty \<noteq> TYPE_EITHER"
    and "editable d" and "isCapable ty d" and "prompts g' = prompts g"
  shows "isActive ty d' = want"
  using assms(1)
proof (cases rule: setActive_cases)
  case noop
  with assms show ?thesis by auto
next
  case failed
  with assms show ?thesis by (simp add: promptUser_def)
next
  case flipped
  with assms show ?thesis by (cases want) (simp_all add: Let_def flip_isActive)
qed

lemma setActive_active_cases:
  assumes "setActive tr ty want (d, g) = (d', g')"
  shows "active d' = active d \<or> active d' = active d XOR 1 \<or> active d' = active d XOR 2"
  using assms
  by (cases rule: setActive_cases; cases ty; cases want; simp add: Let_def)

lemma uint_less_4: "(x::uint) < 4 \<Longrightarrow> x = 0 \<or> x = 1 \<or> x = 2 \<or> x = 3"
proof -
  assume "x < 4"
  then have "unat x < 4" by (simp add: word_less_nat_alt)
  then consider "unat x = 0" | "unat x = 1" | "unat x = 2" | "unat x = 3" by arith
  then show ?thesis
  proof cases
    case 1
    then show ?thesis by (simp add: unat_eq_0)
  next
    case 2
    then have "(word_of_nat (unat x) :: uint) = word_of_nat 1" by simp
    then show ?thesis by simp
  next
    case 3
    then have "(word_of_nat (unat x) :: uint) = word_of_nat 2" by simp
    then show ?thesis by simp
  next
    case 4
    then have "(word_of_nat (unat x) :: uint) = word_of_nat 3" by simp
    then show ?thesis by simp
  qed
qed

lemma uint_bits_eq:
  assumes "(x::uint) < 4" and "y < 4" and "bit x 0 = bit y 0" and "bit x (Suc 0) = bit y (Suc 0)"
  shows "x = y"
  using uint_less_4 [OF assms(1)] uint_less_4 [OF assms(2)] assms(3,4)
  by (elim disjE) (simp_all add: bit_0 bit_Suc)

lemma uint_xor_small:
  "(x::uint) < 4 \<Longrightarrow> x XOR 1 < 4 \<and> x XOR 2 < 4"
  by (drule uint_less_4) (elim disjE, simp_all)

lemma sint_small: "(x::uint) < 4 \<Longrightarrow> sint x = uint x"
  by (drule uint_less_4) (elim disjE, simp_all)

lemma word_of_int_small:
  "0 \<le> i \<Longrightarrow> i < 4 \<Longrightarrow> (word_of_int i :: uint) < 4 \<and> uint (word_of_int i :: uint) = i"
proof -
  assume "0 \<le> i" "i < 4"
  then consider "i = 0" | "i = 1" | "i = 2" | "i = 3" by arith
  then show ?thesis by cases simp_all
qed

lemma update_prompts_steps:
  assumes "setActive tr TYPE_INPUT a (d, g) = (d1, g1)"
    and "setActive tr TYPE_OUTPUT b (d1, g1) = (d2, g2)"
    and "prompts g2 = prompts g"
  shows "prompts g1 = prompts g \<and> prompts g2 = prompts g1"
proof -
  obtain p1 p2 where "prompts g1 = prompts g @ p1" "prompts g2 = prompts g1 @ p2"
    using setActive_prompts [OF assms(1)] setActive_prompts [OF assms(2)] by auto
  with assms(3) show ?thesis by simp
qed

lemma update_active:
  assumes "update tr j (d, g) = (d', g')" and "editable d" and "prompts g' = prompts g"
  shows "(isCapable TYPE_INPUT d \<longrightarrow>
            isActive TYPE_INPUT d' = (word_of_int (toInt (j_active j)) AND (1::uint) \<noteq> 0))
       \<and> (isCapable TYPE_OUTPUT d \<longrightarrow>
            isActive TYPE_OUTPUT d' = (word_of_int (toInt (j_active j)) AND (2::uint) \<noteq> 0))"
  using assms(1)
proof (cases rule: update_steps)
  case (1 d1 g1 d2)
  from update_prompts_steps [OF 1(1) 1(2) assms(3)]
  have p: "prompts g1 = prompts g" "prompts g' = prompts g1" by simp_all
  have ed1: "editable d1" and cp1: "capable d1 = capable d"
    using setActive_preserves [OF 1(1)] assms(2) by simp_all
  have act': "isActive ty d' = isActive ty d2" for ty
    by (rule isActive_cong) (simp add: 1(3))
  have inp: "isActive TYPE_INPUT d' = (word_of_int (toInt (j_active j)) AND (1::uint) \<noteq> 0)"
    if "isCapable TYPE_INPUT d"
  proof -
    have "isActive TYPE_INPUT d1 = (word_of_int (toInt (j_active j)) AND (1::uint) \<noteq> 0)"
      using setActive_sets [OF 1(1) _ assms(2) that p(1)] by simp
    moreover have "isActive TYPE_INPUT d2 = isActive TYPE_INPUT d1"
      using setActive_other [OF 1(2), of TYPE_INPUT] by simp
    ultimately show ?thesis by (simp add: act')
  qed
  have out: "isActive TYPE_OUTPUT d' = (word_of_int (toInt (j_active j)) AND (2::uint) \<noteq> 0)"
    if "isCapable TYPE_OUTPUT d"
  proof -
    from that have "isCapable TYPE_OUTPUT d1"
      using isCapable_cong [OF cp1, of TYPE_OUTPUT] by simp
    from setActive_sets [OF 1(2) _ ed1 this p(2)] show ?thesis by (simp add: act')
  qed
  from inp out show ?thesis by simp
qed

lemma update_active_small:
  assumes "update tr j (d, g) = (d', g')" and "active d < 4"
  shows "active d' < 4"
  using assms(1)
proof (cases rule: update_steps)
  case (1 d1 g1 d2)
  have "active d1 < 4"
    using setActive_active_cases [OF 1(1)] uint_xor_small [OF assms(2)] assms(2) by auto
  then have "active d2 < 4"
    using setActive_active_cases [OF 1(2)] uint_xor_small [of "active d1"] by auto
  with 1(3) show ?thesis by simp
qed

lemma update_active_mask:
  assumes "update tr j (d, g) = (d', g')" and "editable d" and "prompts g' = prompts g"
    and "isCapable TYPE_INPUT d" and "isCapable TYPE_OUTPUT d" and "active d < 4"
    and "0 \<le> toInt (j_active j)" and "toInt (j_active j) < 4"
  shows "sint (active d') = toInt (j_active j)"
proof -
  let ?a = "word_of_int (toInt (j_active j)) :: uint"
  have a: "?a < 4" "uint ?a = toInt (j_active j)"
    using word_of_int_small [OF assms(7,8)] by simp_all
  have s: "active d' < 4"
    by (rule update_active_small [OF assms(1,6)])
  from update_active [OF assms(1-3)] assms(4,5)
  have "bit (active d') 0 = bit ?a 0" "bit (active d') (Suc 0) = bit ?a (Suc 0)"
    by (simp_all add: isActive_INPUT isActive_OUTPUT and_1_bit and_2_bit)
  with s a(1) have "active d' = ?a" by (intro uint_bits_eq)
  with a s show ?thesis by (simp add: sint_small)
qed

lemma add_json_device:
  assumes "add_json tr fr dummy j w = (r, w')"
    and "d0 = (case find_device w (toString (j_name j)) of
                 None \<Rightarrow> base_device fr j | Some a \<Rightarrow> heap w ! a)"
  obtains g0 d' g1 where "update tr j (d0, g0) = (d', g1)" "prompts g0 = prompts (glob w)"
    "prompts (glob w') = prompts g1" "heap w' ! r = d'" "objectName d0 = toString (j_name j)"
proof (cases "find_device w (toString (j_name j))")
  case None
  let ?name = "toString (j_name j)"
  define w0 where "w0 = (case find_device w dummy of None \<Rightarrow> w | Some a \<Rightarrow> remove_device a w)"
  have w0: "heap w0 = heap w" "prompts (glob w0) = prompts (glob w)"
    by (cases "find_device w dummy"; simp add: w0_def remove_device_def log_event_def)+
  obtain d g1 where u: "update tr j (base_device fr j, glob w0) = (d, g1)"
    by (cases "update tr j (base_device fr j, glob w0)") simp
  define w3 where "w3 = updateDeviceReferences ?name (length (heap w))
      (manager_add (length (heap w)) (w0\<lparr>heap := heap w @ [d], glob := g1\<rparr>))"
  have "add_json tr fr dummy j w =
      (length (heap w), w3\<lparr>glob := refreshBindingsForDevice ?name (glob w3)\<rparr>)"
    using None u
    by (simp add: add_json_def Let_def w0_def [symmetric] w0(1) new_MMGDevice_def w3_def)
  with assms(1) have r: "r = length (heap w)"
    and w': "w' = w3\<lparr>glob := refreshBindingsForDevice ?name (glob w3)\<rparr>"
    by simp_all
  have hp: "heap w' ! r = d"
    by (simp add: w' w3_def r manager_add_def)
  have pr: "prompts (glob w') = prompts g1"
    by (simp add: w' w3_def refreshBindingsForDevice_prompts manager_add_def log_event_def)
  from None assms(2) have d0: "d0 = base_device fr j" by simp
  show ?thesis
    by (rule that [OF u [folded d0] w0(2) pr hp]) (simp add: d0 base_device_def)
next
  case (Some a)
  let ?name = "toString (j_name j)"
  from Some have a: "a < length (heap w)" "objectName (heap w ! a) = ?name"
    using find_in_Some [of "heap w" "devices w" ?name a] by (simp_all add: find_device_def)
  obtain d' g' where u: "update tr j (heap w ! a, glob w) = (d', g')"
    by (cases "update tr j (heap w ! a, glob w)") simp
  from add_json_existing_eq [OF Some u, of fr dummy] assms(1)
  have r: "r = a" and w': "w' = w\<lparr>heap := (heap w)[a := d'],
      glob := refreshBindingsForDevice ?name g'\<rparr>"
    by simp_all
  from Some assms(2) have d0: "d0 = heap w ! a" by simp
  show ?thesis
    by (rule that [OF u [folded d0], of ])
      (simp_all add: w' r a d0 refreshBindingsForDevice_prompts)
qed

section \<open>Properties of \<open>setActive\<close>\<close>

text \<open>
  C8. \<open>setActive(x, want)\<close> returns at once, with no transport operation invoked and no
  state changed (device, port, prompts and reference graph are what they were), when the
  device is not editable, or \<open>want\<close> equals \<open>isActive(x)\<close>, or the device is not capable of
  \<open>x\<close>; in particular no error is prompted for a direction the device is not capable of.
\<close>

theorem setActive_noop:
  "\<not> editable d \<or> want = isActive ty d \<or> \<not> isCapable ty d
   \<Longrightarrow> setActive tr ty want (d, g) = (d, g)"
  by (auto simp: setActive_def)

theorem setActive_noop_witness:
  "\<not> isCapable TYPE_OUTPUT (device_A 1 5)
   \<and> setActive flags TYPE_OUTPUT True (device_A 1 5, no_config) = (device_A 1 5, no_config)
   \<and> calls (fst (setActive flags TYPE_OUTPUT True (device_A 1 5, no_config))) = []
   \<and> prompts (snd (setActive flags TYPE_OUTPUT True (device_A 1 5, no_config))) = []"
proof -
  have nc: "\<not> isCapable TYPE_OUTPUT (device_A 1 5)"
    by (simp add: isCapable_def device_A_def)
  then have "\<not> editable (device_A 1 5) \<or> True = isActive TYPE_OUTPUT (device_A 1 5)
      \<or> \<not> isCapable TYPE_OUTPUT (device_A 1 5)"
    by simp
  from setActive_noop [OF this, of flags no_config] nc
  show ?thesis by (simp add: device_A_def no_config_def)
qed

text \<open>
  C1 (amended). Let \<open>x\<close> be Input or Output. If the device is editable and capable of \<open>x\<close>,
  and \<open>x\<close> was inactive before the call or its port was already open, then after
  \<open>setActive(x, true)\<close> returns without a PortOpenError prompt, \<open>isActive(x)\<close> holds and the
  transport reports the port of \<open>x\<close> open. Whenever \<open>setActive(x, want)\<close> prompts a
  PortOpenError, the port state disagrees with \<open>want\<close>, the active mask is what it was
  before the call, and the reference graph is untouched (no cascade ran).
\<close>

theorem setActive_outcome:
  assumes "setActive tr ty want (d, g) = (d', g')"
  shows "(ty \<noteq> TYPE_EITHER \<and> want \<and> editable d \<and> isCapable ty d
            \<and> (isActive ty d \<longrightarrow> isPortOpen tr ty d) \<and> prompts g' = prompts g
          \<longrightarrow> isActive ty d' \<and> isPortOpen tr ty d')
       \<and> (prompts g' \<noteq> prompts g
          \<longrightarrow> prompts g' = prompts g @ [''PortOpenError''] \<and> isPortOpen tr ty d' \<noteq> want
              \<and> active d' = active d \<and> config g' = config g \<and> events g' = events g)"
  using assms
proof (cases rule: setActive_cases)
  case noop
  then show ?thesis by auto
next
  case failed
  then show ?thesis by (auto simp: promptUser_def)
next
  case flipped
  then show ?thesis
    by (auto simp: Let_def flip_isActive flip_isPortOpen activation_cascade_prompts)
qed

theorem setActive_outcome_witness:
  "editable (device_A 3 5) \<and> isCapable TYPE_OUTPUT (device_A 3 5)
   \<and> \<not> isActive TYPE_OUTPUT (device_A 3 5)
   \<and> prompts (snd (setActive flags TYPE_OUTPUT True (device_A 3 5, graph_AB))) = prompts graph_AB
   \<and> isActive TYPE_OUTPUT (fst (setActive flags TYPE_OUTPUT True (device_A 3 5, graph_AB)))
   \<and> isPortOpen flags TYPE_OUTPUT (fst (setActive flags TYPE_OUTPUT True (device_A 3 5, graph_AB)))
   \<and> prompts (snd (setActive flags TYPE_OUTPUT True (device_A 3 0, graph_AB))) \<noteq> prompts graph_AB
   \<and> prompts (snd (setActive flags TYPE_OUTPUT True (device_A 3 0, graph_AB))) = [''PortOpenError'']
   \<and> active (fst (setActive flags TYPE_OUTPUT True (device_A 3 0, graph_AB))) = active (device_A 3 0)
   \<and> config (snd (setActive flags TYPE_OUTPUT True (device_A 3 0, graph_AB))) = config graph_AB"
proof -
  have e: "editable (device_A 3 5)" "isCapable TYPE_OUTPUT (device_A 3 5)"
    "\<not> isActive TYPE_OUTPUT (device_A 3 5)"
    by (simp_all add: device_A_def isCapable_def isActive_def)
  have r: "prompts graph_AB = []" by (simp add: graph_AB_def)
  have p: "prompts (snd (setActive flags TYPE_OUTPUT True (device_A 3 5, graph_AB))) = prompts graph_AB"
    by (simp add: setActive_A_out r)
  have q: "prompts (snd (setActive flags TYPE_OUTPUT True (device_A 3 0, graph_AB))) \<noteq> prompts graph_AB"
    by (simp add: setActive_A_out_fail r)
  from setActive_outcome [where tr = flags and ty = TYPE_OUTPUT and want = True
        and d = "device_A 3 5" and g = graph_AB, OF prod.collapse [symmetric]]
    setActive_outcome [where tr = flags and ty = TYPE_OUTPUT and want = True
        and d = "device_A 3 0" and g = graph_AB, OF prod.collapse [symmetric]]
    e p q
  show ?thesis by (simp add: r)
qed

text \<open>
  C1 as stated fails on a device that is not capable of the direction: the guard returns
  silently, no PortOpenError is prompted, and the direction is neither active nor open.
\<close>

theorem setActive_silent_counterexample:
  "prompts (snd (setActive flags TYPE_OUTPUT True (device_A 1 5, graph_AB))) = prompts graph_AB
   \<and> \<not> isActive TYPE_OUTPUT (fst (setActive flags TYPE_OUTPUT True (device_A 1 5, graph_AB)))
   \<and> \<not> isPortOpen flags TYPE_OUTPUT (fst (setActive flags TYPE_OUTPUT True (device_A 1 5, graph_AB)))"
  by (simp add: setActive_A_incapable)
    (simp add: device_A_def isActive_def isPortOpen_def flags_def flag_is_open_def closed_ports_def)




text \<open>
  C9. A call \<open>setActive(x, want)\<close>, however it ends, leaves the name, the capability mask, the
  thru string and the editable flag of the device as they were; the active mask is either
  unchanged or differs in the one bit of \<open>x\<close> (bit 0 for Input, bit 1 for Output), so the
  other direction's active state is the same before and after.
\<close>

theorem setActive_frame:
  assumes "setActive tr ty want (d, g) = (d', g')"
  shows "objectName d' = objectName d \<and> capable d' = capable d \<and> thru d' = thru d
       \<and> editable d' = editable d
       \<and> (active d' = active d
            \<or> ty = TYPE_INPUT \<and> active d' = active d XOR 1
            \<or> ty = TYPE_OUTPUT \<and> active d' = active d XOR 2)
       \<and> (ty = TYPE_INPUT \<longrightarrow> isActive TYPE_OUTPUT d' = isActive TYPE_OUTPUT d)
       \<and> (ty = TYPE_OUTPUT \<longrightarrow> isActive TYPE_INPUT d' = isActive TYPE_INPUT d)"
  using assms
proof (cases rule: setActive_cases)
  case noop
  then show ?thesis by simp
next
  case failed
  then show ?thesis by (auto simp: isActive_INPUT isActive_OUTPUT)
next
  case flipped
  then show ?thesis
    by (cases ty; cases want)
      (simp_all add: Let_def isActive_INPUT isActive_OUTPUT bit_xor_1_1 bit_xor_2_0)
qed

theorem setActive_frame_witness:
  "objectName (fst (setActive flags TYPE_OUTPUT True (device_A 3 5, graph_AB))) = ''A''
   \<and> capable (fst (setActive flags TYPE_OUTPUT True (device_A 3 5, graph_AB))) = 3
   \<and> thru (fst (setActive flags TYPE_OUTPUT True (device_A 3 5, graph_AB))) = []
   \<and> active (fst (setActive flags TYPE_OUTPUT True (device_A 3 5, graph_AB)))
       = active (device_A 3 5) XOR 2
   \<and> isActive TYPE_INPUT (fst (setActive flags TYPE_OUTPUT True (device_A 3 5, graph_AB)))
       = isActive TYPE_INPUT (device_A 3 5)
   \<and> isActive TYPE_OUTPUT (fst (setActive flags TYPE_OUTPUT True (device_A 3 5, graph_AB)))
       \<noteq> isActive TYPE_OUTPUT (device_A 3 5)"
proof -
  have a: "active (fst (setActive flags TYPE_OUTPUT True (device_A 3 5, graph_AB)))
      \<noteq> active (device_A 3 5)"
    by (simp add: setActive_A_out device_A_fields)
  have b: "isActive TYPE_OUTPUT (fst (setActive flags TYPE_OUTPUT True (device_A 3 5, graph_AB)))
       \<noteq> isActive TYPE_OUTPUT (device_A 3 5)"
    by (simp add: setActive_A_out device_A_fields isActive_def)
  note c = device_A_fields [of 3 5]
  from setActive_frame [where tr = flags and ty = TYPE_OUTPUT and want = True
      and d = "device_A 3 5" and g = graph_AB, OF prod.collapse [symmetric]] a b c
  show ?thesis by simp
qed

section \<open>Properties of \<open>checkCapable\<close>\<close>

text \<open>
  C6 (amended). Let \<open>x\<close> be Input or Output. After \<open>checkCapable()\<close> returns, \<open>x\<close> is active only
  if it was active before the call and the probe found it capable: a direction that was
  inactive stays inactive, and a direction that was active but is found non-capable ends
  inactive. If the device is editable and the call prompted no PortOpenError, a
  direction that was active before and is found capable is active again.
\<close>

theorem checkCapable_restores:
  assumes "checkCapable tr (d, g) = (d', g')" and "ty \<noteq> TYPE_EITHER"
  shows "(isActive ty d' \<longrightarrow> isActive ty d \<and> isCapable ty d')
       \<and> (editable d \<and> prompts g' = prompts g \<and> isActive ty d \<and> isCapable ty d'
            \<longrightarrow> isActive ty d')"
  using assms(1)
proof (cases rule: checkCapable_steps)
  case (1 d8 d9 g9)
  note s9 = \<open>setActive tr TYPE_INPUT (isActive TYPE_INPUT d) (d8, g) = (d9, g9)\<close>
  note fin = \<open>setActive tr TYPE_OUTPUT (isActive TYPE_OUTPUT d) (d9, g9) = (d', g')\<close>
  have in8: "\<not> isActive ty d8" for ty
    using \<open>active d8 = 0\<close> by (cases ty) (simp_all add: isActive_def)
  have c9: "capable d9 = capable d8"
    by (rule setActive_preserves(2) [OF s9])
  have c': "capable d' = capable d8"
    using setActive_preserves(2) [OF fin] c9 by simp
  have cap: "isCapable ty d9 = isCapable ty d8" "isCapable ty d' = isCapable ty d8" for ty
    by (rule isCapable_cong [OF c9], rule isCapable_cong [OF c'])
  have ed: "editable d8 = editable d" "editable d9 = editable d"
    using setActive_preserves(4) [OF s9] 1(2) by simp_all
  obtain p1 p2 where p: "prompts g9 = prompts g @ p1" "prompts g' = prompts g9 @ p2"
    using setActive_prompts [OF s9] setActive_prompts [OF fin] by auto
  show ?thesis
  proof (cases ty)
    case TYPE_INPUT
    have same: "isActive TYPE_INPUT d' = isActive TYPE_INPUT d9"
      using setActive_other [OF fin, of TYPE_INPUT] by simp
    have a: "isActive TYPE_INPUT d9 \<Longrightarrow> isActive TYPE_INPUT d \<and> isCapable TYPE_INPUT d8"
      using setActive_becomes_active [OF s9 _ _ in8] by simp
    have b: "isActive TYPE_INPUT d9"
      if "editable d" "prompts g' = prompts g" "isActive TYPE_INPUT d" "isCapable TYPE_INPUT d8"
    proof -
      from that(2) p have "prompts g9 = prompts g" by simp
      with setActive_activates [of tr TYPE_INPUT d8 g d9 g9] s9 that ed show ?thesis by simp
    qed
    from a b same cap TYPE_INPUT show ?thesis by auto
  next
    case TYPE_OUTPUT
    have in9: "\<not> isActive TYPE_OUTPUT d9"
      using setActive_other [OF s9, of TYPE_OUTPUT] in8 by simp
    have a: "isActive TYPE_OUTPUT d' \<Longrightarrow> isActive TYPE_OUTPUT d \<and> isCapable TYPE_OUTPUT d9"
      using setActive_becomes_active [OF fin _ _ in9] by simp
    have b: "isActive TYPE_OUTPUT d'"
      if "editable d" "prompts g' = prompts g" "isActive TYPE_OUTPUT d" "isCapable TYPE_OUTPUT d8"
    proof -
      from that(2) p have "prompts g' = prompts g9" by simp
      with setActive_activates [of tr TYPE_OUTPUT d9 g9 d' g'] fin that ed cap show ?thesis by simp
    qed
    from a b cap TYPE_OUTPUT show ?thesis by auto
  next
    case TYPE_EITHER
    with assms(2) show ?thesis by simp
  qed
qed

theorem checkCapable_restores_witness:
  "TYPE_INPUT \<noteq> TYPE_EITHER \<and> editable (active_A 4)
   \<and> prompts (snd (checkCapable flags (active_A 4, no_config))) = prompts no_config
   \<and> isActive TYPE_INPUT (active_A 4)
   \<and> isCapable TYPE_INPUT (fst (checkCapable flags (active_A 4, no_config)))
   \<and> isActive TYPE_INPUT (fst (checkCapable flags (active_A 4, no_config)))"
proof -
  have ne: "TYPE_INPUT \<noteq> TYPE_EITHER" by simp
  have h: "editable (active_A 4)"
    "prompts (snd (checkCapable flags (active_A 4, no_config))) = prompts no_config"
    "isActive TYPE_INPUT (active_A 4)"
    "isCapable TYPE_INPUT (fst (checkCapable flags (active_A 4, no_config)))"
    by (simp_all add: checkCapable_active_A_4 isCapable_def) (simp_all add: active_A_def isActive_def)
  from checkCapable_restores [where tr = flags and d = "active_A 4" and g = no_config
      and ty = TYPE_INPUT, OF prod.collapse [symmetric] ne] h
  show ?thesis by simp
qed

text \<open>
  C6 as stated fails when the port opens during the probe but not afterwards: Input was
  active, the probe finds it capable, the re-open fails with a PortOpenError and Input
  ends inactive.
\<close>

theorem checkCapable_reopen_counterexample:
  "editable (active_A 2) \<and> isActive TYPE_INPUT (active_A 2)
   \<and> isCapable TYPE_INPUT (fst (checkCapable flags (active_A 2, no_config)))
   \<and> \<not> isActive TYPE_INPUT (fst (checkCapable flags (active_A 2, no_config)))
   \<and> prompts (snd (checkCapable flags (active_A 2, no_config)))
       = [''PortOpenError'', ''PortOpenError'']"
  by (simp add: checkCapable_active_A_2 isCapable_def isActive_def) (simp add: active_A_def)

text \<open>
  C4 (amended). \<open>checkCapable()\<close> invokes the transport in this order: close Input, close
  Output, open Input, open Output, close Input, close Output. The Input capability
  recorded is what the transport reports right after the open of Input, the Output
  capability what it reports right after the open of Output, at which point Input has
  not been closed again. After the probe the only transport calls are re-opens, Input
  before Output: one open of each direction that was active before the call, provided
  the device is editable and the probe found the direction capable.
\<close>

theorem checkCapable_probe_order:
  "calls (fst (checkCapable tr (d, g))) =
     calls d @ [ClosePort TYPE_INPUT, ClosePort TYPE_OUTPUT, OpenPort TYPE_INPUT,
                OpenPort TYPE_OUTPUT, ClosePort TYPE_INPUT, ClosePort TYPE_OUTPUT]
       @ (if isActive TYPE_INPUT d \<and> editable d
             \<and> isCapable TYPE_INPUT (fst (checkCapable tr (d, g)))
          then [OpenPort TYPE_INPUT] else [])
       @ (if isActive TYPE_OUTPUT d \<and> editable d
             \<and> isCapable TYPE_OUTPUT (fst (checkCapable tr (d, g)))
          then [OpenPort TYPE_OUTPUT] else [])
   \<and> isCapable TYPE_INPUT (fst (checkCapable tr (d, g))) =
       tr_is_open tr TYPE_INPUT
         (run_calls tr [ClosePort TYPE_INPUT, ClosePort TYPE_OUTPUT, OpenPort TYPE_INPUT] (port d))
   \<and> isCapable TYPE_OUTPUT (fst (checkCapable tr (d, g))) =
       tr_is_open tr TYPE_OUTPUT
         (run_calls tr [ClosePort TYPE_INPUT, ClosePort TYPE_OUTPUT, OpenPort TYPE_INPUT,
            OpenPort TYPE_OUTPUT] (port d))"
proof -
  obtain d' g' where r: "checkCapable tr (d, g) = (d', g')"
    by (cases "checkCapable tr (d, g)") simp
  from r show ?thesis
  proof (cases rule: checkCapable_steps)
    case (1 d8 d9 g9)
    note s9 = \<open>setActive tr TYPE_INPUT (isActive TYPE_INPUT d) (d8, g) = (d9, g9)\<close>
    note fin = \<open>setActive tr TYPE_OUTPUT (isActive TYPE_OUTPUT d) (d9, g9) = (d', g')\<close>
    have in8: "\<not> isActive ty d8" for ty
      using \<open>active d8 = 0\<close> by (cases ty) (simp_all add: isActive_def)
    have in9: "\<not> isActive TYPE_OUTPUT d9"
      using setActive_other [OF s9, of TYPE_OUTPUT] in8 by simp
    have c9: "capable d9 = capable d8"
      by (rule setActive_preserves(2) [OF s9])
    have c': "capable d' = capable d8"
      using setActive_preserves(2) [OF fin] c9 by simp
    have cap: "isCapable ty d8 = isCapable ty d'" "isCapable ty d9 = isCapable ty d'" for ty
      by (rule isCapable_cong [OF c' [symmetric]], rule isCapable_cong, simp add: c9 c')
    have ed: "editable d8 = editable d" "editable d9 = editable d"
      using setActive_preserves(4) [OF s9] 1(2) by simp_all
    have k1: "calls d9 = calls d8 @
        (if isActive TYPE_INPUT d \<and> editable d \<and> isCapable TYPE_INPUT d'
         then [OpenPort TYPE_INPUT] else [])"
      using setActive_calls_exact [OF s9] in8 [of TYPE_INPUT] by (auto simp: ed cap)
    have k2: "calls d' = calls d9 @
        (if isActive TYPE_OUTPUT d \<and> editable d \<and> isCapable TYPE_OUTPUT d'
         then [OpenPort TYPE_OUTPUT] else [])"
      using setActive_calls_exact [OF fin] in9 by (auto simp: ed cap)
    have k: "calls d' = calls d @ [ClosePort TYPE_INPUT, ClosePort TYPE_OUTPUT, OpenPort TYPE_INPUT,
                OpenPort TYPE_OUTPUT, ClosePort TYPE_INPUT, ClosePort TYPE_OUTPUT]
       @ (if isActive TYPE_INPUT d \<and> editable d \<and> isCapable TYPE_INPUT d'
          then [OpenPort TYPE_INPUT] else [])
       @ (if isActive TYPE_OUTPUT d \<and> editable d \<and> isCapable TYPE_OUTPUT d'
          then [OpenPort TYPE_OUTPUT] else [])"
      unfolding k2 k1 1(5) by simp
    from k cap(1) [symmetric] 1(7,8) show ?thesis
      unfolding r by simp
  qed
qed

theorem checkCapable_probe_order_witness:
  "calls (fst (checkCapable flags (active_A 4, no_config))) =
     [ClosePort TYPE_INPUT, ClosePort TYPE_OUTPUT, OpenPort TYPE_INPUT,
      OpenPort TYPE_OUTPUT, ClosePort TYPE_INPUT, ClosePort TYPE_OUTPUT,
      OpenPort TYPE_INPUT, OpenPort TYPE_OUTPUT]
   \<and> isActive TYPE_INPUT (active_A 4) \<and> isActive TYPE_OUTPUT (active_A 4)
   \<and> editable (active_A 4)
   \<and> isCapable TYPE_INPUT (fst (checkCapable flags (active_A 4, no_config)))
   \<and> isCapable TYPE_OUTPUT (fst (checkCapable flags (active_A 4, no_config)))
   \<and> flag_is_open TYPE_OUTPUT
         (run_calls flags [ClosePort TYPE_INPUT, ClosePort TYPE_OUTPUT, OpenPort TYPE_INPUT,
            OpenPort TYPE_OUTPUT] (port (active_A 4)))"
proof -
  have c: "isCapable TYPE_INPUT (fst (checkCapable flags (active_A 4, no_config)))"
    "isCapable TYPE_OUTPUT (fst (checkCapable flags (active_A 4, no_config)))"
    by (simp_all add: checkCapable_active_A_4 isCapable_def)
  have h: "isActive TYPE_INPUT (active_A 4)" "isActive TYPE_OUTPUT (active_A 4)"
    "editable (active_A 4)" "calls (active_A 4) = []"
    by code_simp+
  have t: "tr_is_open flags = flag_is_open" by (simp add: flags_def)
  note p = checkCapable_probe_order [of flags "active_A 4" no_config]
  have k: "calls (fst (checkCapable flags (active_A 4, no_config))) =
     [ClosePort TYPE_INPUT, ClosePort TYPE_OUTPUT, OpenPort TYPE_INPUT,
      OpenPort TYPE_OUTPUT, ClosePort TYPE_INPUT, ClosePort TYPE_OUTPUT,
      OpenPort TYPE_INPUT, OpenPort TYPE_OUTPUT]"
    using p [THEN conjunct1] c h by simp
  have o: "flag_is_open TYPE_OUTPUT
         (run_calls flags [ClosePort TYPE_INPUT, ClosePort TYPE_OUTPUT, OpenPort TYPE_INPUT,
            OpenPort TYPE_OUTPUT] (port (active_A 4)))"
    using p [THEN conjunct2, THEN conjunct2] c(2) t by simp
  from k h c o show ?thesis by simp
qed

text \<open>
  C4 as stated fails: the six probe calls are not in the order close, close, open Input,
  close Input, open Output, close Output, and after the fourth call both ports are open
  at once.
\<close>

theorem checkCapable_both_open_counterexample:
  "take 6 (calls (fst (checkCapable flags (device_A 0 5, no_config)))) \<noteq>
     [ClosePort TYPE_INPUT, ClosePort TYPE_OUTPUT, OpenPort TYPE_INPUT,
      ClosePort TYPE_INPUT, OpenPort TYPE_OUTPUT, ClosePort TYPE_OUTPUT]
   \<and> in_open (run_calls flags
        (take 4 (calls (fst (checkCapable flags (device_A 0 5, no_config))))) (closed_ports 5))
   \<and> out_open (run_calls flags
        (take 4 (calls (fst (checkCapable flags (device_A 0 5, no_config))))) (closed_ports 5))"
  by (simp add: checkCapable_device_A)
    (simp add: flags_def flag_open_def flag_close_def closed_ports_def)

section \<open>Properties of \<open>MMGDeviceManager::add\<close>\<close>

text \<open>
  C7. When the record's name matches an existing device, \<open>add(record)\<close> returns that
  device, leaves the registry list as it is and updates the device object in place with
  \<open>update(record)\<close>, applied to the state before the call; no message is repointed (all
  messages are what they were). The cascade runs after the update: the events of the
  call are those of \<open>update\<close> followed by one refresh, in traversal order, of each binding
  of the graph as \<open>update\<close> left it that has some message naming the record's name, and
  these bindings are refreshed exactly once by the cascade and no other binding is.
  Over the whole call a binding is refreshed if and only if one of its messages, not
  only the first, names the record's name; the call registers nothing, removes nothing
  and repoints nothing (all its events are refreshes).
\<close>

theorem add_json_existing:
  assumes "find_device w (toString (j_name j)) = Some a"
    and "add_json tr fr dummy j w = (r, w')"
  shows "r = a \<and> devices w' = devices w
     \<and> heap w' = (heap w)[a := fst (update tr j (heap w ! a, glob w))]
     \<and> objectName (heap w' ! a) = toString (j_name j)
     \<and> all_messages (config (glob w')) = all_messages (config (glob w))
     \<and> graph_rel (\<lambda>b. if some_names (toString (j_name j)) b then 1 else 0)
          (config (snd (update tr j (heap w ! a, glob w)))) (config (glob w'))
     \<and> rel_option (list_all2 (list_all2 (\<lambda>b b'. messages b' = messages b
            \<and> (refreshes b < refreshes b') = some_names (toString (j_name j)) b)))
          (config (glob w)) (config (glob w'))
     \<and> (\<forall>e \<in> set (drop (length (events (glob w))) (events (glob w'))). phase e = 3)
     \<and> take (length (events (glob w))) (events (glob w')) = events (glob w)
     \<and> events (glob w') =
         events (snd (update tr j (heap w ! a, glob w)))
         @ map Refreshed (filter (some_names (toString (j_name j)))
             (all_bindings (config (snd (update tr j (heap w ! a, glob w))))))
     \<and> prompts (glob w') = prompts (snd (update tr j (heap w ! a, glob w)))"
proof -
  let ?name = "toString (j_name j)"
  obtain d' g' where u: "update tr j (heap w ! a, glob w) = (d', g')"
    by (cases "update tr j (heap w ! a, glob w)") simp
  from assms(1) have a: "a < length (heap w)" "objectName (heap w ! a) = ?name"
    using find_in_Some [of "heap w" "devices w" ?name a] by (simp_all add: find_device_def)
  from add_json_existing_eq [OF assms(1) u, of fr dummy] assms(2)
  have r: "r = a" and w': "w' = w\<lparr>heap := (heap w)[a := d'],
      glob := refreshBindingsForDevice ?name g'\<rparr>"
    by simp_all
  from u obtain n evs where g: "n \<le> 2"
      "graph_rel (\<lambda>b. if first_names ?name b then n else 0) (config (glob w)) (config g')"
      "events g' = events (glob w) @ evs"
      "\<forall>e \<in> set evs. \<exists>b. e = Refreshed b \<and> first_names ?name b"
    unfolding a(2) [symmetric] by (rule update_graph)
  have broad: "graph_rel (\<lambda>b. if some_names ?name b then 1 else 0) (config g')
      (config (glob w'))"
    by (simp add: w' refreshBindingsForDevice_graph)
  have total: "graph_rel (\<lambda>b. (if first_names ?name b then n else 0)
      + (if some_names ?name b then 1 else 0)) (config (glob w)) (config (glob w'))"
    by (rule graph_rel_trans [OF g(2) broad]) (simp add: some_names_def)
  have exactly: "rel_option (list_all2 (list_all2 (\<lambda>b b'. messages b' = messages b
            \<and> (refreshes b < refreshes b') = some_names ?name b)))
          (config (glob w)) (config (glob w'))"
    using total by (rule graph_rel_mono) (auto dest: first_names_some)
  have evs: "events (glob w') =
      events g' @ map Refreshed (filter (some_names ?name) (all_bindings (config g')))"
    by (simp add: w' refreshBindingsForDevice_events)
  have ev: "drop (length (events (glob w))) (events (glob w')) =
      evs @ map Refreshed (filter (some_names ?name) (all_bindings (config g')))"
    by (simp add: evs g(3))
  have tk: "take (length (events (glob w))) (events (glob w')) = events (glob w)"
    by (simp add: evs g(3))
  have ph: "\<forall>e \<in> set (drop (length (events (glob w))) (events (glob w'))). phase e = 3"
    unfolding ev using g(4) by auto
  have nm: "objectName (heap w' ! a) = ?name"
    using a update_device [OF u] by (simp add: w')
  have msgs: "all_messages (config (glob w')) = all_messages (config (glob w))"
    using total by (rule graph_rel_messages)
  have pr: "prompts (glob w') = prompts g'"
    by (simp add: w' refreshBindingsForDevice_prompts)
  from r w' nm msgs broad exactly ph tk evs pr u show ?thesis by simp
qed

theorem add_json_existing_witness:
  "find_device world_A (toString (j_name (record_A 2))) = Some 0
   \<and> fst (add_json flags (fresh_ports 3) ''Dummy'' (record_A 2) world_A) = 0
   \<and> devices (snd (add_json flags (fresh_ports 3) ''Dummy'' (record_A 2) world_A)) = devices world_A
   \<and> length (heap (snd (add_json flags (fresh_ports 3) ''Dummy'' (record_A 2) world_A))) = 1
   \<and> all_messages (config (glob (snd (add_json flags (fresh_ports 3) ''Dummy'' (record_A 2) world_A))))
       = all_messages (config (glob world_A))
   \<and> map (map refreshes) (the (config (glob world_A))) = [[0, 0]]
   \<and> map (map refreshes)
        (the (config (glob (snd (add_json flags (fresh_ports 3) ''Dummy'' (record_A 2) world_A)))))
       = [[2, 1]]
   \<and> events (snd (update flags (record_A 2) (heap world_A ! 0, glob world_A)))
       = [Refreshed binding_AB]
   \<and> events (glob (snd (add_json flags (fresh_ports 3) ''Dummy'' (record_A 2) world_A)))
       = [Refreshed binding_AB, Refreshed (binding_AB\<lparr>refreshes := 1\<rparr>), Refreshed binding_BA]"
proof -
  let ?r = "add_json flags (fresh_ports 3) ''Dummy'' (record_A 2) world_A"
  have f: "find_device world_A (toString (j_name (record_A 2))) = Some 0"
    by code_simp
  note t = add_json_existing [where tr = flags and fr = "fresh_ports 3" and dummy = "''Dummy''",
      OF f prod.collapse [symmetric]]
  have a: "fst ?r = 0"
    using t [THEN conjunct1] by simp
  have a2: "devices (snd ?r) = devices world_A"
    using t [THEN conjunct2, THEN conjunct1] by simp
  have a3: "all_messages (config (glob (snd ?r))) = all_messages (config (glob world_A))"
    using t [THEN conjunct2, THEN conjunct2, THEN conjunct2, THEN conjunct2, THEN conjunct1]
    by simp
  have b: "length (heap (snd ?r)) = 1"
    "map (map refreshes) (the (config (glob (snd ?r)))) = [[2, 1]]"
    "events (glob (snd ?r))
       = [Refreshed binding_AB, Refreshed (binding_AB\<lparr>refreshes := 1\<rparr>), Refreshed binding_BA]"
    by (simp_all add: add_json_world_A)
  have c: "map (map refreshes) (the (config (glob world_A))) = [[0, 0]]"
    "events (snd (update flags (record_A 2) (heap world_A ! 0, glob world_A)))
       = [Refreshed binding_AB]"
    by code_simp+
  from f a a2 a3 b c show ?thesis by simp
qed

text \<open>
  C3 (amended). When the record's name matches no registered device, \<open>add(record)\<close> removes
  the placeholder device from the registry if there is one, constructs a new device of
  that name, appends it to the registry (where the name now finds it) and returns it;
  every message whose back-reference is null or points at a device of that name then
  points at the new device, and no other message changes. The steps are logged in this
  order: the removal of the placeholder, the refreshes caused by the constructor, the
  registration, the repointings, the refreshes of the broad cascade. The constructor's
  refreshes come from the activation cascade of \<open>update\<close>: they fall on bindings whose
  first message names the device, and there are none unless the fresh device is
  editable, capable of a direction and the record asks for a direction. The bindings
  refreshed by the broad cascade are those of the final graph with a message naming
  the device, observed with their messages already repointed.
\<close>

theorem add_json_new:
  assumes "find_device w (toString (j_name j)) = None"
    and "add_json tr fr dummy j w = (r, w')"
  shows "r = length (heap w)
     \<and> length (heap w') = Suc (length (heap w)) \<and> take (length (heap w)) (heap w') = heap w
     \<and> objectName (heap w' ! r) = toString (j_name j)
     \<and> devices w' = (case find_device w dummy of None \<Rightarrow> devices w
                       | Some a \<Rightarrow> remove1 a (devices w)) @ [r]
     \<and> find_device w' (toString (j_name j)) = Some r
     \<and> all_messages (config (glob w')) =
         map (\<lambda>m. if stale_or_named (heap w') (toString (j_name j)) m
                  then m\<lparr>device := Some r\<rparr> else m)
           (all_messages (config (glob w)))
     \<and> (\<exists>ctor bs.
           events (glob w') =
             events (glob w)
             @ (case find_device w dummy of None \<Rightarrow> [] | Some a \<Rightarrow> [Removed a])
             @ ctor
             @ [Registered r]
             @ map (\<lambda>m. Repointed m r)
                 (filter (stale_or_named (heap w') (toString (j_name j)))
                    (all_messages (config (glob w))))
             @ map Refreshed bs
         \<and> (\<forall>e \<in> set ctor. \<exists>b. e = Refreshed b \<and> first_names (toString (j_name j)) b)
         \<and> (ctor \<noteq> [] \<longrightarrow> fresh_editable fr \<and> fresh_capable fr AND 3 \<noteq> 0
               \<and> (word_of_int (toInt (j_active j)) :: uint) AND 3 \<noteq> 0)
         \<and> map messages bs =
             map messages (filter (some_names (toString (j_name j)))
               (all_bindings (config (glob w')))))"
proof -
  let ?name = "toString (j_name j)"
  let ?r = "length (heap w)"
  let ?rm = "case find_device w dummy of None \<Rightarrow> [] | Some a \<Rightarrow> [Removed a]"
  let ?ds = "case find_device w dummy of None \<Rightarrow> devices w | Some a \<Rightarrow> remove1 a (devices w)"
  define w0 where "w0 = (case find_device w dummy of None \<Rightarrow> w | Some a \<Rightarrow> remove_device a w)"
  have w0: "heap w0 = heap w" "devices w0 = ?ds" "config (glob w0) = config (glob w)"
    "events (glob w0) = events (glob w) @ ?rm"
    by (cases "find_device w dummy"; simp add: w0_def remove_device_def log_event_def)+
  obtain d g1 where c: "new_MMGDevice tr fr j (glob w0) = (d, g1)"
    by (cases "new_MMGDevice tr fr j (glob w0)") simp
  then have u: "update tr j (base_device fr j, glob w0) = (d, g1)"
    by (simp add: new_MMGDevice_def)
  have bn: "objectName (base_device fr j) = ?name"
    by (simp add: base_device_def)
  have nm: "objectName d = ?name"
    using update_device [OF u] bn by simp
  from u obtain n ctor where g: "n \<le> 2"
      "graph_rel (\<lambda>b. if first_names ?name b then n else 0) (config (glob w0)) (config g1)"
      "events g1 = events (glob w0) @ ctor"
      "\<forall>e \<in> set ctor. \<exists>b. e = Refreshed b \<and> first_names ?name b"
      "n = 0 \<longrightarrow> ctor = []"
      "0 < n \<longrightarrow> editable (base_device fr j)
         \<and> (isCapable TYPE_INPUT (base_device fr j) \<or> isCapable TYPE_OUTPUT (base_device fr j))
         \<and> (word_of_int (toInt (j_active j)) :: uint) AND 3 \<noteq> 0"
    unfolding bn [symmetric] by (rule update_graph)
  define w3 where "w3 = updateDeviceReferences ?name (length (heap w))
      (manager_add (length (heap w)) (w0\<lparr>heap := heap w @ [d], glob := g1\<rparr>))"
  have res: "add_json tr fr dummy j w =
      (length (heap w), w3\<lparr>glob := refreshBindingsForDevice ?name (glob w3)\<rparr>)"
    using assms(1) c
    by (simp add: add_json_def Let_def w0_def [symmetric] w0(1) w3_def)
  with assms(2) have r: "r = length (heap w)"
    and w': "w' = w3\<lparr>glob := refreshBindingsForDevice ?name (glob w3)\<rparr>"
    by simp_all
  have h3: "heap w3 = heap w @ [d]" and d3: "devices w3 = ?ds @ [?r]"
    by (simp_all add: w3_def manager_add_def w0(2))
  have c3: "config (glob w3) =
      map_option (map (map (\<lambda>b. b\<lparr>messages :=
        map (\<lambda>m. if stale_or_named (heap w @ [d]) ?name m then m\<lparr>device := Some ?r\<rparr> else m)
          (messages b)\<rparr>))) (config g1)"
    by (simp add: w3_def updateDeviceReferences_config manager_add_def log_event_def)
  have m1: "all_messages (config g1) = all_messages (config (glob w))"
    using graph_rel_messages [OF g(2)] w0(3) by simp
  have e3: "events (glob w3) = events (glob w) @ ?rm @ ctor @ [Registered ?r]
      @ map (\<lambda>m. Repointed m ?r)
          (filter (stale_or_named (heap w @ [d]) ?name) (all_messages (config (glob w))))"
    by (simp add: w3_def updateDeviceReferences_events manager_add_def log_event_def g(3)
        w0(4) m1)
  have broad: "graph_rel (\<lambda>b. if some_names ?name b then 1 else 0) (config (glob w3))
      (config (glob w'))"
    by (simp add: w' refreshBindingsForDevice_graph)
  have hw': "heap w' = heap w @ [d]" and dw': "devices w' = ?ds @ [?r]"
    by (simp_all add: w' h3 d3)
  have msgs: "all_messages (config (glob w')) =
      map (\<lambda>m. if stale_or_named (heap w') ?name m then m\<lparr>device := Some ?r\<rparr> else m)
        (all_messages (config (glob w)))"
    using graph_rel_messages [OF broad] by (simp add: c3 all_messages_map m1 hw')
  define bs where "bs = filter (some_names ?name) (all_bindings (config (glob w3)))"
  have ev: "events (glob w') = events (glob w) @ ?rm @ ctor @ [Registered ?r]
      @ map (\<lambda>m. Repointed m ?r)
          (filter (stale_or_named (heap w') ?name) (all_messages (config (glob w))))
      @ map Refreshed bs"
    by (simp add: w' refreshBindingsForDevice_events e3 bs_def h3)
  have bsm: "map messages bs =
      map messages (filter (some_names ?name) (all_bindings (config (glob w'))))"
    unfolding bs_def
    by (rule refreshed_filter [OF graph_rel_all_bindings [OF broad], symmetric])
  have cap: "fresh_capable fr AND 3 \<noteq> 0"
    if "isCapable TYPE_INPUT (base_device fr j) \<or> isCapable TYPE_OUTPUT (base_device fr j)"
    using that by (intro and_3_nonzero) (simp add: isCapable_def base_device_def)
  have why: "ctor \<noteq> [] \<longrightarrow> fresh_editable fr \<and> fresh_capable fr AND 3 \<noteq> 0
      \<and> (word_of_int (toInt (j_active j)) :: uint) AND 3 \<noteq> 0"
  proof (cases "n = 0")
    case True
    with g(5) show ?thesis by simp
  next
    case False
    with g(6) cap have "fresh_capable fr AND 3 \<noteq> 0"
      "(word_of_int (toInt (j_active j)) :: uint) AND 3 \<noteq> 0" "editable (base_device fr j)"
      by simp_all
    then show ?thesis by (simp add: base_device_def)
  qed
  have fnd: "find_device w' ?name = Some ?r"
  proof -
    have "find_in (heap w) ?ds ?name = None"
      using assms(1) by (cases "find_device w dummy") (simp_all add: find_device_def find_in_remove1)
    from find_in_extend [OF this nm] show ?thesis
      by (simp add: find_device_def hw' dw')
  qed
  have hp: "length (heap w') = Suc (length (heap w))" "take (length (heap w)) (heap w') = heap w"
    "objectName (heap w' ! ?r) = ?name"
    by (simp_all add: hw' nm)
  from ev g(4) why bsm
  have ex: "\<exists>ctor bs. events (glob w') = events (glob w) @ ?rm @ ctor @ [Registered ?r]
      @ map (\<lambda>m. Repointed m ?r)
          (filter (stale_or_named (heap w') ?name) (all_messages (config (glob w))))
      @ map Refreshed bs
    \<and> (\<forall>e \<in> set ctor. \<exists>b. e = Refreshed b \<and> first_names ?name b)
    \<and> (ctor \<noteq> [] \<longrightarrow> fresh_editable fr \<and> fresh_capable fr AND 3 \<noteq> 0
          \<and> (word_of_int (toInt (j_active j)) :: uint) AND 3 \<noteq> 0)
    \<and> map messages bs =
        map messages (filter (some_names ?name) (all_bindings (config (glob w'))))"
    by blast
  from hp dw' fnd msgs ex show ?thesis unfolding r by blast
qed

theorem add_json_new_witness:
  "find_device world_dummy (toString (j_name record_Real)) = None
   \<and> find_device world_dummy ''Dummy'' = Some 0
   \<and> fst (add_json flags (fresh_ports 3) ''Dummy'' record_Real world_dummy) = 1
   \<and> devices (snd (add_json flags (fresh_ports 3) ''Dummy'' record_Real world_dummy)) = [1]
   \<and> objectName (heap (snd (add_json flags (fresh_ports 3) ''Dummy'' record_Real world_dummy)) ! 1)
       = ''Real''
   \<and> find_device (snd (add_json flags (fresh_ports 3) ''Dummy'' record_Real world_dummy)) ''Real''
       = Some 1
   \<and> map device (all_messages (config (glob
         (snd (add_json flags (fresh_ports 3) ''Dummy'' record_Real world_dummy)))))
       = [Some 1, Some 1, Some 1, Some 1]
   \<and> events (glob (snd (add_json flags (fresh_ports 3) ''Dummy'' record_Real world_dummy)))
       = [Removed 0, Registered 1, Repointed (msg ''A'') 1, Repointed (msg ''B'') 1,
          Repointed (msg ''B'') 1, Repointed (msg ''A'') 1]"
proof -
  let ?r = "add_json flags (fresh_ports 3) ''Dummy'' record_Real world_dummy"
  have f: "find_device world_dummy (toString (j_name record_Real)) = None"
    by code_simp
  have n: "toString (j_name record_Real) = ''Real''"
    by code_simp
  have d: "find_device world_dummy ''Dummy'' = Some 0" "devices world_dummy = [0]"
    "length (heap world_dummy) = 1"
    by code_simp+
  note t = add_json_new [where tr = flags and fr = "fresh_ports 3" and dummy = "''Dummy''",
      OF f prod.collapse [symmetric]]
  have a1: "fst ?r = 1"
    using t [THEN conjunct1] by (simp add: d)
  have a2: "objectName (heap (snd ?r) ! 1) = ''Real''"
    using t [THEN conjunct2, THEN conjunct2, THEN conjunct2, THEN conjunct1]
    by (simp add: a1 n)
  have a3: "devices (snd ?r) = [1]"
    using t [THEN conjunct2, THEN conjunct2, THEN conjunct2, THEN conjunct2, THEN conjunct1]
    by (simp add: a1 d)
  have a4: "find_device (snd ?r) ''Real'' = Some 1"
    using t [THEN conjunct2, THEN conjunct2, THEN conjunct2, THEN conjunct2, THEN conjunct2,
        THEN conjunct1]
    by (simp add: a1 n)
  note a = a1 a3 a2 a4
  have b: "map device (all_messages (config (glob (snd ?r)))) = [Some 1, Some 1, Some 1, Some 1]"
    "events (glob (snd ?r)) = [Removed 0, Registered 1, Repointed (msg ''A'') 1,
       Repointed (msg ''B'') 1, Repointed (msg ''B'') 1, Repointed (msg ''A'') 1]"
    by (simp_all add: add_json_world_dummy all_messages_def)
  from f d(1) a b show ?thesis by simp
qed

text \<open>
  C3 as stated fails in its ordering: adding device A with Output requested to an empty
  registry, the constructor activates Output and the activation cascade refreshes the
  binding whose first message names A before the device is registered and before any
  message is repointed.
\<close>

theorem add_json_order_counterexample:
  "find_device world_empty (toString (j_name (record_A 2))) = None
   \<and> take 3 (events (glob (snd (add_json flags (fresh_ports 3) ''Dummy'' (record_A 2) world_empty))))
       = [Refreshed binding_AB, Registered 0, Repointed (msg ''A'') 0]
   \<and> \<not> sorted (map phase
         (events (glob (snd (add_json flags (fresh_ports 3) ''Dummy'' (record_A 2) world_empty)))))"
proof -
  have f: "find_device world_empty (toString (j_name (record_A 2))) = None"
    by code_simp
  show ?thesis
    by (simp add: f add_json_world_empty_events)
qed

text \<open>
  C5 (amended). Let \<open>d0\<close> be the device the record is applied to: the registered device of
  that name, or else the freshly constructed one before \<open>update\<close> runs. \<open>add(record)\<close>
  followed by \<open>json\<close> on the device returned yields the record's name (a missing name
  reads as the empty string) and a thru field that is present, with the record's value,
  if and only if the record's thru string is not empty. If \<open>d0\<close> is editable and the
  call prompted no PortOpenError, the active state of each direction \<open>d0\<close> is capable of
  is the record's bit for that direction; if moreover \<open>d0\<close> is capable of both
  directions, its active mask has no bit beyond the two and the record's active value
  is between 0 and 3, the serialized active value is the record's.
\<close>

theorem add_json_roundtrip:
  assumes "add_json tr fr dummy j w = (r, w')"
    and "d0 = (case find_device w (toString (j_name j)) of
                 None \<Rightarrow> base_device fr j | Some a \<Rightarrow> heap w ! a)"
  shows "j_name (json (heap w' ! r) empty_json) = Some (toString (j_name j))
     \<and> j_thru (json (heap w' ! r) empty_json) =
         (if toString (j_thru j) = [] then None else Some (toString (j_thru j)))
     \<and> (editable d0 \<and> prompts (glob w') = prompts (glob w) \<longrightarrow>
          (isCapable TYPE_INPUT d0 \<longrightarrow>
             isActive TYPE_INPUT (heap w' ! r) =
               (word_of_int (toInt (j_active j)) AND (1::uint) \<noteq> 0))
        \<and> (isCapable TYPE_OUTPUT d0 \<longrightarrow>
             isActive TYPE_OUTPUT (heap w' ! r) =
               (word_of_int (toInt (j_active j)) AND (2::uint) \<noteq> 0)))
     \<and> (editable d0 \<and> prompts (glob w') = prompts (glob w)
          \<and> isCapable TYPE_INPUT d0 \<and> isCapable TYPE_OUTPUT d0 \<and> active d0 < 4
          \<and> 0 \<le> toInt (j_active j) \<and> toInt (j_active j) < 4 \<longrightarrow>
          j_active (json (heap w' ! r) empty_json) = Some (toInt (j_active j)))"
  using assms
proof (cases rule: add_json_device)
  case (1 g0 d' g1)
  note u = \<open>update tr j (d0, g0) = (d', g1)\<close>
  have p: "prompts (glob w') = prompts (glob w) \<longleftrightarrow> prompts g1 = prompts g0"
    using 1(2,3) by simp
  have dev: "objectName d' = toString (j_name j)" "thru d' = toString (j_thru j)"
    using update_device [OF u] 1(5) by simp_all
  have nm: "j_name (json (heap w' ! r) empty_json) = Some (toString (j_name j))"
    by (simp add: 1(4) json_def Let_def dev)
  have th: "j_thru (json (heap w' ! r) empty_json) =
      (if toString (j_thru j) = [] then None else Some (toString (j_thru j)))"
    by (simp add: 1(4) json_def Let_def dev empty_json_def)
  have bits: "(isCapable TYPE_INPUT d0 \<longrightarrow>
             isActive TYPE_INPUT (heap w' ! r) =
               (word_of_int (toInt (j_active j)) AND (1::uint) \<noteq> 0))
        \<and> (isCapable TYPE_OUTPUT d0 \<longrightarrow>
             isActive TYPE_OUTPUT (heap w' ! r) =
               (word_of_int (toInt (j_active j)) AND (2::uint) \<noteq> 0))"
    if "editable d0" "prompts (glob w') = prompts (glob w)"
    using update_active [OF u that(1)] that(2) p by (simp add: 1(4))
  have mask: "j_active (json (heap w' ! r) empty_json) = Some (toInt (j_active j))"
    if "editable d0" "prompts (glob w') = prompts (glob w)" "isCapable TYPE_INPUT d0"
      "isCapable TYPE_OUTPUT d0" "active d0 < 4" "0 \<le> toInt (j_active j)"
      "toInt (j_active j) < 4"
  proof -
    from that(2) p have "prompts g1 = prompts g0" by simp
    from update_active_mask [OF u that(1) this that(3-7)]
    show ?thesis by (simp add: 1(4) json_def Let_def)
  qed
  from nm th bits mask show ?thesis by blast
qed

theorem add_json_roundtrip_witness:
  "device_A 3 5 = (case find_device world_A (toString (j_name (record_A 2))) of
                     None \<Rightarrow> base_device (fresh_ports 3) (record_A 2)
                   | Some a \<Rightarrow> heap world_A ! a)
   \<and> editable (device_A 3 5) \<and> isCapable TYPE_INPUT (device_A 3 5)
   \<and> isCapable TYPE_OUTPUT (device_A 3 5) \<and> active (device_A 3 5) < 4
   \<and> toInt (j_active (record_A 2)) = 2
   \<and> prompts (glob (snd (add_json flags (fresh_ports 3) ''Dummy'' (record_A 2) world_A)))
       = prompts (glob world_A)
   \<and> json (heap (snd (add_json flags (fresh_ports 3) ''Dummy'' (record_A 2) world_A))
             ! fst (add_json flags (fresh_ports 3) ''Dummy'' (record_A 2) world_A)) empty_json
       = \<lparr>j_name = Some ''A'', j_active = Some 2, j_thru = Some ''B''\<rparr>"
proof -
  let ?r = "add_json flags (fresh_ports 3) ''Dummy'' (record_A 2) world_A"
  have d0: "device_A 3 5 = (case find_device world_A (toString (j_name (record_A 2))) of
                     None \<Rightarrow> base_device (fresh_ports 3) (record_A 2)
                   | Some a \<Rightarrow> heap world_A ! a)"
    by code_simp
  have h: "editable (device_A 3 5)" "isCapable TYPE_INPUT (device_A 3 5)"
    "isCapable TYPE_OUTPUT (device_A 3 5)" "active (device_A 3 5) < 4"
    "toInt (j_active (record_A 2)) = 2" "toString (j_name (record_A 2)) = ''A''"
    "toString (j_thru (record_A 2)) = ''B''"
    by code_simp+
  have p: "prompts (glob (snd ?r)) = prompts (glob world_A)"
    unfolding add_json_world_A by code_simp
  note t = add_json_roundtrip [where tr = flags and fr = "fresh_ports 3" and dummy = "''Dummy''",
      OF prod.collapse [symmetric] d0]
  have n: "j_name (json (heap (snd ?r) ! fst ?r) empty_json) = Some ''A''"
    using t [THEN conjunct1] by (simp add: h)
  have th: "j_thru (json (heap (snd ?r) ! fst ?r) empty_json) = Some ''B''"
    using t [THEN conjunct2, THEN conjunct1] by (simp add: h)
  have a: "j_active (json (heap (snd ?r) ! fst ?r) empty_json) = Some 2"
    using t [THEN conjunct2, THEN conjunct2, THEN conjunct2] h p by simp
  have "json (heap (snd ?r) ! fst ?r) empty_json
      = \<lparr>j_name = Some ''A'', j_active = Some 2, j_thru = Some ''B''\<rparr>"
    using n th a by (cases "json (heap (snd ?r) ! fst ?r) empty_json") simp
  with d0 h p show ?thesis by simp
qed

text \<open>
  C5 as stated fails for a device that is not capable of a requested direction: device A
  is capable of Input only, the record asks for both directions (active 3), no error is
  prompted and the serialized active value is 1.
\<close>

theorem add_json_roundtrip_counterexample:
  "toInt (j_active (record_A 3)) = 3
   \<and> j_active (json (heap (snd (add_json flags (fresh_ports 3) ''Dummy'' (record_A 3) world_A_in))
                      ! fst (add_json flags (fresh_ports 3) ''Dummy'' (record_A 3) world_A_in))
                empty_json) = Some 1
   \<and> prompts (glob (snd (add_json flags (fresh_ports 3) ''Dummy'' (record_A 3) world_A_in))) = []"
  by code_simp

section \<open>A null config\<close>

text \<open>
  C10. When \<open>config()\<close> is null, the cascades do nothing and nothing fails: a call of
  \<open>setActive\<close> returns with the config still null and no cascade event logged, and its
  effect on the device is the one it has with any config present; in particular, for
  Input or Output on an editable, capable device whose port follows the request, the
  transport operation is invoked and the active state becomes the requested one.
  \<open>updateDeviceReferences\<close> and \<open>refreshBindingsForDevice\<close> return the state unchanged.
\<close>

theorem null_config_noop:
  assumes "config g = None" and "config (glob w) = None"
  shows "config (snd (setActive tr ty want (d, g))) = None
     \<and> events (snd (setActive tr ty want (d, g))) = events g
     \<and> fst (setActive tr ty want (d, g)) = fst (setActive tr ty want (d, g\<lparr>config := Some cs\<rparr>))
     \<and> (ty \<noteq> TYPE_EITHER \<and> editable d \<and> isCapable ty d \<and> isActive ty d \<noteq> want
          \<and> isPortOpen tr ty (if want then openPort tr ty d else closePort tr ty d) = want
        \<longrightarrow> isActive ty (fst (setActive tr ty want (d, g))) = want
            \<and> calls (fst (setActive tr ty want (d, g))) =
                calls d @ [if want then OpenPort ty else ClosePort ty]
            \<and> snd (setActive tr ty want (d, g)) = g)
     \<and> updateDeviceReferences name newDevice w = w
     \<and> refreshBindingsForDevice name g = g"
proof -
  obtain d' g' where s: "setActive tr ty want (d, g) = (d', g')"
    by (cases "setActive tr ty want (d, g)") simp
  obtain d2 g2 where s2: "setActive tr ty want (d, g\<lparr>config := Some cs\<rparr>) = (d2, g2)"
    by (cases "setActive tr ty want (d, g\<lparr>config := Some cs\<rparr>)") simp
  have casc: "activation_cascade n g = g" for n
    using assms(1) by (simp add: activation_cascade_def)
  from s have g': "config g' = None \<and> events g' = events g"
    by (cases rule: setActive_cases) (simp_all add: assms(1) promptUser_def casc)
  have same: "d' = d2"
    using s
  proof (cases rule: setActive_cases)
    case noop
    with s2 setActive_noop_eq [of d want ty tr "g\<lparr>config := Some cs\<rparr>"] show ?thesis by auto
  next
    case failed
    from s2 show ?thesis
      by (cases rule: setActive_cases) (use failed in \<open>auto simp: Let_def\<close>)
  next
    case flipped
    from s2 show ?thesis
      by (cases rule: setActive_cases) (use flipped in \<open>auto simp: Let_def\<close>)
  qed
  have toggled: "isActive ty d' = want
      \<and> calls d' = calls d @ [if want then OpenPort ty else ClosePort ty] \<and> g' = g"
    if h: "ty \<noteq> TYPE_EITHER" "editable d" "isCapable ty d" "isActive ty d \<noteq> want"
      "isPortOpen tr ty (if want then openPort tr ty d else closePort tr ty d) = want"
    using s
  proof (cases rule: setActive_cases)
    case noop
    with h show ?thesis by auto
  next
    case failed
    with h show ?thesis by (cases want) auto
  next
    case flipped
    with h casc show ?thesis
      by (cases want; cases ty) (simp_all add: Let_def flip_isActive isActive_INPUT
          isActive_OUTPUT bit_xor_1_0 bit_xor_2_1)
  qed
  have upd: "updateDeviceReferences name newDevice w = w"
    using assms(2) by (simp add: updateDeviceReferences_def)
  have rfr: "refreshBindingsForDevice name g = g"
    using assms(1) by (simp add: refreshBindingsForDevice_def)
  from g' same toggled upd rfr show ?thesis by (simp add: s s2)
qed

theorem null_config_noop_witness:
  "config no_config = None
   \<and> config (glob (world_A\<lparr>glob := no_config\<rparr>)) = None
   \<and> editable (device_A 3 5) \<and> isCapable TYPE_OUTPUT (device_A 3 5)
   \<and> \<not> isActive TYPE_OUTPUT (device_A 3 5)
   \<and> isPortOpen flags TYPE_OUTPUT (openPort flags TYPE_OUTPUT (device_A 3 5))
   \<and> isActive TYPE_OUTPUT (fst (setActive flags TYPE_OUTPUT True (device_A 3 5, no_config)))
   \<and> calls (fst (setActive flags TYPE_OUTPUT True (device_A 3 5, no_config)))
       = [OpenPort TYPE_OUTPUT]
   \<and> snd (setActive flags TYPE_OUTPUT True (device_A 3 5, no_config)) = no_config
   \<and> updateDeviceReferences ''A'' 0 (world_A\<lparr>glob := no_config\<rparr>) = world_A\<lparr>glob := no_config\<rparr>
   \<and> refreshBindingsForDevice ''A'' no_config = no_config"
proof -
  have c: "config no_config = None" "config (glob (world_A\<lparr>glob := no_config\<rparr>)) = None"
    by (simp_all add: no_config_def)
  have h: "TYPE_OUTPUT \<noteq> TYPE_EITHER" "editable (device_A 3 5)"
    "isCapable TYPE_OUTPUT (device_A 3 5)" "\<not> isActive TYPE_OUTPUT (device_A 3 5)"
    "isPortOpen flags TYPE_OUTPUT (openPort flags TYPE_OUTPUT (device_A 3 5))"
    "calls (device_A 3 5) = []"
    by code_simp+
  note t = null_config_noop [OF c, where tr = flags and ty = TYPE_OUTPUT and want = True
      and d = "device_A 3 5" and name = "''A''" and newDevice = 0]
  have a: "isActive TYPE_OUTPUT (fst (setActive flags TYPE_OUTPUT True (device_A 3 5, no_config)))
     \<and> calls (fst (setActive flags TYPE_OUTPUT True (device_A 3 5, no_config)))
         = [OpenPort TYPE_OUTPUT]
     \<and> snd (setActive flags TYPE_OUTPUT True (device_A 3 5, no_config)) = no_config"
    using t [THEN conjunct2, THEN conjunct2, THEN conjunct2, THEN conjunct1] h by simp
  have b: "updateDeviceReferences ''A'' 0 (world_A\<lparr>glob := no_config\<rparr>)
        = world_A\<lparr>glob := no_config\<rparr>"
    "refreshBindingsForDevice ''A'' no_config = no_config"
    using t [THEN conjunct2, THEN conjunct2, THEN conjunct2, THEN conjunct2] by simp_all
  from c h a b show ?thesis by simp
qed

end
